theory Spec2Isabelle
  imports Main
begin

section \<open>Texts\<close>

text \<open>
  The quiz route (\<^verbatim>\<open>backend/src/routes/quiz.ts\<close>) works on JavaScript strings.
  A text is a list of code units; the texts the handler receives are taken over the
  code units below 256 (type \<open>char\<close>), the strings that \<^verbatim>\<open>JSON.parse\<close> decodes
  may hold any code unit (an escape \<^verbatim>\<open>\uXXXX\<close> yields one), so they are lists of
  numbers.
\<close>

type_synonym jstring = "nat list"

definition js :: "string \<Rightarrow> jstring" where
  "js s = map of_char s"

text \<open>
  \<^verbatim>\<open>String.prototype.trim\<close> and the class \<^verbatim>\<open>\s\<close> of a regular expression remove
  the same characters: white space and line terminators. Below 256 these are
  TAB, LF, VT, FF, CR, SPACE and NBSP.
\<close>

definition is_space :: "char \<Rightarrow> bool" where
  "is_space c = (c \<in> set [CHR 0x09, CHR 0x0A, CHR 0x0B, CHR 0x0C, CHR 0x0D, CHR 0x20, CHR 0xA0])"

definition trim :: "string \<Rightarrow> string" where
  "trim s = rev (dropWhile is_space (rev (dropWhile is_space s)))"

definition fence :: string where
  "fence = [CHR 0x60, CHR 0x60, CHR 0x60]"

text \<open>Case folding of the flag \<^verbatim>\<open>i\<close>: only the letters A to Z have another case below 128.\<close>

definition ascii_lower :: "char \<Rightarrow> char" where
  "ascii_lower c =
     (let n = (of_char c :: nat) in if 65 \<le> n \<and> n \<le> 90 then char_of (n + 32) else c)"

text \<open>
  \<^verbatim>\<open>.replace(/^```json\s*/i, '')\<close> (line 114): at the very start of the text, three
  backticks, the word json in any case, and all the white space that follows.
\<close>

definition strip_json_fence :: "string \<Rightarrow> string" where
  "strip_json_fence s =
     (if map ascii_lower (take 7 s) = fence @ ''json''
      then dropWhile is_space (drop 7 s) else s)"

text \<open>
  \<^verbatim>\<open>.replace(/```$/, '')\<close> (line 115): three backticks at the very end of the text
  (no flag \<^verbatim>\<open>m\<close>, so \<^verbatim>\<open>$\<close> is the end of the input).
\<close>

definition strip_closing_fence :: "string \<Rightarrow> string" where
  "strip_closing_fence s =
     (if 3 \<le> length s \<and> drop (length s - 3) s = fence
      then take (length s - 3) s else s)"

text \<open>Lines 113 to 116: \<^verbatim>\<open>cleanedResponse\<close> as a function of \<^verbatim>\<open>rawResponse\<close>.\<close>

definition cleanedResponse :: "string \<Rightarrow> string" where
  "cleanedResponse rawResponse = trim (strip_closing_fence (strip_json_fence rawResponse))"

section \<open>JSON values and \<^verbatim>\<open>JSON.parse\<close>\<close>

text \<open>
  The values \<^verbatim>\<open>JSON.parse\<close> returns. A number keeps its literal (the handler never
  computes with one); an object keeps its members in the order of their first
  appearance, a repeated key keeping its place and taking the last value.
\<close>

datatype json =
    JNull
  | JBool bool
  | JNumber string
  | JString jstring
  | JArray "json list"
  | JObject "(jstring \<times> json) list"

datatype token =
    LBrace | RBrace | LBracket | RBracket | Colon | Comma
  | TString jstring | TNumber string | TTrue | TFalse | TNull

definition is_json_ws :: "char \<Rightarrow> bool" where
  "is_json_ws c = (c \<in> set [CHR 0x20, CHR 0x09, CHR 0x0A, CHR 0x0D])"

definition is_digit :: "char \<Rightarrow> bool" where
  "is_digit c = (let n = (of_char c :: nat) in 48 \<le> n \<and> n \<le> 57)"

definition hex_digit :: "char \<Rightarrow> nat option" where
  "hex_digit c =
     (let n = (of_char c :: nat) in
      if 48 \<le> n \<and> n \<le> 57 then Some (n - 48)
      else if 65 \<le> n \<and> n \<le> 70 then Some (n - 55)
      else if 97 \<le> n \<and> n \<le> 102 then Some (n - 87)
      else None)"

definition hex4 :: "char \<Rightarrow> char \<Rightarrow> char \<Rightarrow> char \<Rightarrow> nat option" where
  "hex4 a b c d =
     (case (hex_digit a, hex_digit b, hex_digit c, hex_digit d) of
        (Some x, Some y, Some z, Some w) \<Rightarrow> Some (((x * 16 + y) * 16 + z) * 16 + w)
      | _ \<Rightarrow> None)"

definition escape_char :: "char \<Rightarrow> nat option" where
  "escape_char e =
     (if e = CHR 0x22 then Some 34
      else if e = CHR 0x5C then Some 92
      else if e = CHR ''/'' then Some 47
      else if e = CHR ''b'' then Some 8
      else if e = CHR ''f'' then Some 12
      else if e = CHR ''n'' then Some 10
      else if e = CHR ''r'' then Some 13
      else if e = CHR ''t'' then Some 9
      else None)"

text \<open>
  The characters of a string after its opening quote, up to the closing quote: the
  decoded string and the rest of the text. A control character, a bad escape or the
  end of the text before the closing quote is a syntax error.
\<close>

fun lex_string :: "string \<Rightarrow> jstring \<Rightarrow> (jstring \<times> string) option" where
  "lex_string [] acc = None"
| "lex_string (c # cs) acc =
     (if c = CHR 0x22 then Some (rev acc, cs)
      else if c = CHR 0x5C then
        (case cs of
           [] \<Rightarrow> None
         | e # es \<Rightarrow>
             if e = CHR ''u'' then
               (case es of
                  h1 # h2 # h3 # h4 # rest \<Rightarrow>
                    (case hex4 h1 h2 h3 h4 of
                       None \<Rightarrow> None
                     | Some n \<Rightarrow> lex_string rest (n # acc))
                | _ \<Rightarrow> None)
             else
               (case escape_char e of
                  None \<Rightarrow> None
                | Some n \<Rightarrow> lex_string es (n # acc)))
      else if (of_char c :: nat) < 32 then None
      else lex_string cs (of_char c # acc))"

definition scan_digits :: "string \<Rightarrow> nat" where
  "scan_digits s = length (takeWhile is_digit s)"

text \<open>
  The length of the number literal a text starts with:
  \<^verbatim>\<open>-? (0 | [1-9][0-9]*) (\.[0-9]+)? ([eE][+-]?[0-9]+)?\<close>.
\<close>

definition number_length :: "string \<Rightarrow> nat option" where
  "number_length s =
     (let n_sign = (if take 1 s = ''-'' then 1 else 0 :: nat);
          s1 = drop n_sign s;
          n_int = scan_digits s1
      in if n_int = 0 \<or> (1 < n_int \<and> take 1 s1 = ''0'') then None
         else
           let s2 = drop n_int s1;
               has_frac = (take 1 s2 = ''.'');
               n_frac = (if has_frac then 1 + scan_digits (drop 1 s2) else 0)
           in if has_frac \<and> n_frac = 1 then None
              else
                let s3 = drop n_frac s2;
                    has_exp = (take 1 s3 = ''e'' \<or> take 1 s3 = ''E'');
                    s4 = drop 1 s3;
                    n_esign = (if take 1 s4 = ''+'' \<or> take 1 s4 = ''-'' then 1 else 0 :: nat);
                    n_edigits = scan_digits (drop n_esign s4)
                in if has_exp \<and> n_edigits = 0 then None
                   else Some (n_sign + n_int + n_frac
                              + (if has_exp then 1 + n_esign + n_edigits else 0)))"

lemma number_length_pos: "number_length s = Some n \<Longrightarrow> 0 < n"
  by (auto simp: number_length_def Let_def split: if_splits)

lemma lex_string_shorter: "lex_string s acc = Some (r, rest) \<Longrightarrow> length rest < length s"
proof (induction s acc rule: lex_string.induct)
  case (1 acc)
  then show ?case by simp
next
  case (2 c cs acc)
  show ?case
  proof (cases "c = CHR 0x22")
    case True
    with 2(4) show ?thesis by simp
  next
    case nq: False
    show ?thesis
    proof (cases "c = CHR 0x5C")
      case bs: True
      show ?thesis
      proof (cases cs)
        case Nil
        with 2(4) nq bs show ?thesis by simp
      next
        case (Cons e es)
        show ?thesis
        proof (cases "e = CHR ''u''")
          case u: True
          from 2(4) nq bs Cons u obtain h1 h2 h3 h4 rest' n where
            es: "es = h1 # h2 # h3 # h4 # rest'" and h: "hex4 h1 h2 h3 h4 = Some n"
            and r: "lex_string rest' (n # acc) = Some (r, rest)"
            by (auto split: list.splits option.splits)
          from 2(1) [OF nq bs Cons u es refl refl refl h r] have "length rest < length rest'" .
          with Cons es show ?thesis by simp
        next
          case nu: False
          from 2(4) nq bs Cons nu obtain n where h: "escape_char e = Some n"
            and r: "lex_string es (n # acc) = Some (r, rest)"
            by (auto split: option.splits)
          from 2(2) [OF nq bs Cons nu h r] have "length rest < length es" .
          with Cons show ?thesis by simp
        qed
      qed
    next
      case nbs: False
      with 2(4) nq have ctl: "\<not> (of_char c :: nat) < 32" and r: "lex_string cs (of_char c # acc) = Some (r, rest)"
        by (auto split: if_splits)
      from 2(3) [OF nq nbs ctl r] show ?thesis by simp
    qed
  qed
qed

function lex :: "string \<Rightarrow> token list option" where
  "lex [] = Some []"
| "lex (c # cs) =
     (if is_json_ws c then lex cs
      else if c = CHR ''{'' then map_option (Cons LBrace) (lex cs)
      else if c = CHR ''}'' then map_option (Cons RBrace) (lex cs)
      else if c = CHR ''['' then map_option (Cons LBracket) (lex cs)
      else if c = CHR '']'' then map_option (Cons RBracket) (lex cs)
      else if c = CHR '':'' then map_option (Cons Colon) (lex cs)
      else if c = CHR '','' then map_option (Cons Comma) (lex cs)
      else if c = CHR 0x22 then
        (case lex_string cs [] of
           None \<Rightarrow> None
         | Some (s, rest) \<Rightarrow> map_option (Cons (TString s)) (lex rest))
      else if c = CHR ''-'' \<or> is_digit c then
        (case number_length (c # cs) of
           None \<Rightarrow> None
         | Some n \<Rightarrow> map_option (Cons (TNumber (take n (c # cs)))) (lex (drop n (c # cs))))
      else if take 4 (c # cs) = ''true'' then map_option (Cons TTrue) (lex (drop 3 cs))
      else if take 5 (c # cs) = ''false'' then map_option (Cons TFalse) (lex (drop 4 cs))
      else if take 4 (c # cs) = ''null'' then map_option (Cons TNull) (lex (drop 3 cs))
      else None)"
  by pat_completeness auto
termination
proof (relation "measure length")
  show "wf (measure length)" by simp
next
  fix c cs x2 x y
  assume "lex_string cs [] = Some x2" "(x, y) = x2"
  then have "length y < length cs" using lex_string_shorter [of cs "[]" x y] by simp
  then show "(y, c # cs) \<in> measure length" by simp
next
  fix c cs n
  assume "number_length (c # cs) = Some n"
  then have "0 < n" by (rule number_length_pos)
  then show "(drop n (c # cs), c # cs) \<in> measure length" by simp
qed simp_all

text \<open>
  The grammar over tokens, read one token at a time with a stack of the containers
  that are still open.
\<close>

datatype frame =
    InArray "json list"
  | InObject "(jstring \<times> json) list"
  | InMember "(jstring \<times> json) list" jstring

datatype expect =
    WantValue
  | WantValueOrClose
  | WantKey
  | WantKeyOrClose
  | WantColon
  | WantCommaOrClose
  | Finished json

fun set_member :: "jstring \<Rightarrow> json \<Rightarrow> (jstring \<times> json) list \<Rightarrow> (jstring \<times> json) list" where
  "set_member k v [] = [(k, v)]"
| "set_member k v ((k', v') # ms) =
     (if k' = k then (k, v) # ms else (k', v') # set_member k v ms)"

text \<open>A finished value goes into the innermost open container, or is the result.\<close>

fun complete :: "json \<Rightarrow> frame list \<Rightarrow> (expect \<times> frame list) option" where
  "complete v [] = Some (Finished v, [])"
| "complete v (InArray es # st) = Some (WantCommaOrClose, InArray (es @ [v]) # st)"
| "complete v (InMember ms k # st) = Some (WantCommaOrClose, InObject (set_member k v ms) # st)"
| "complete v (InObject ms # st) = None"

fun scalar :: "token \<Rightarrow> json option" where
  "scalar (TString s) = Some (JString s)"
| "scalar (TNumber n) = Some (JNumber n)"
| "scalar TTrue = Some (JBool True)"
| "scalar TFalse = Some (JBool False)"
| "scalar TNull = Some JNull"
| "scalar _ = None"

fun start_value :: "token \<Rightarrow> frame list \<Rightarrow> (expect \<times> frame list) option" where
  "start_value LBracket st = Some (WantValueOrClose, InArray [] # st)"
| "start_value LBrace st = Some (WantKeyOrClose, InObject [] # st)"
| "start_value t st = (case scalar t of None \<Rightarrow> None | Some v \<Rightarrow> complete v st)"

fun close_array :: "frame list \<Rightarrow> (expect \<times> frame list) option" where
  "close_array (InArray es # st) = complete (JArray es) st"
| "close_array _ = None"

fun close_object :: "frame list \<Rightarrow> (expect \<times> frame list) option" where
  "close_object (InObject ms # st) = complete (JObject ms) st"
| "close_object _ = None"

fun start_member :: "token \<Rightarrow> frame list \<Rightarrow> (expect \<times> frame list) option" where
  "start_member (TString k) (InObject ms # st) = Some (WantColon, InMember ms k # st)"
| "start_member _ _ = None"

fun after_comma :: "frame list \<Rightarrow> (expect \<times> frame list) option" where
  "after_comma (InArray es # st) = Some (WantValue, InArray es # st)"
| "after_comma (InObject ms # st) = Some (WantKey, InObject ms # st)"
| "after_comma _ = None"

fun parse_step :: "token \<Rightarrow> expect \<Rightarrow> frame list \<Rightarrow> (expect \<times> frame list) option" where
  "parse_step t WantValue st = start_value t st"
| "parse_step t WantValueOrClose st =
     (if t = RBracket then close_array st else start_value t st)"
| "parse_step t WantKey st = start_member t st"
| "parse_step t WantKeyOrClose st =
     (if t = RBrace then close_object st else start_member t st)"
| "parse_step t WantColon st = (if t = Colon then Some (WantValue, st) else None)"
| "parse_step t WantCommaOrClose st =
     (if t = Comma then after_comma st
      else if t = RBracket then close_array st
      else if t = RBrace then close_object st
      else None)"
| "parse_step t (Finished v) st = None"

fun parse_tokens :: "token list \<Rightarrow> expect \<Rightarrow> frame list \<Rightarrow> json option" where
  "parse_tokens [] e st = (case e of Finished v \<Rightarrow> Some v | _ \<Rightarrow> None)"
| "parse_tokens (t # ts) e st =
     (case parse_step t e st of
        None \<Rightarrow> None
      | Some (e', st') \<Rightarrow> parse_tokens ts e' st')"

text \<open>\<^verbatim>\<open>JSON.parse(text)\<close>: \<open>None\<close> is the SyntaxError it throws.\<close>

definition JSON_parse :: "string \<Rightarrow> json option" where
  "JSON_parse s = (case lex s of None \<Rightarrow> None | Some ts \<Rightarrow> parse_tokens ts WantValue [])"

section \<open>The quiz route\<close>

subsection \<open>Requests, responses, and what the two clients return\<close>

text \<open>
  \<^verbatim>\<open>req.query.domain\<close> is undefined, a string, or (for a repeated or bracketed
  parameter) an array or object.
\<close>

datatype query_value = Missing | Single string | Multiple

text \<open>The columns the handler sends and reads (lines 67, 133 to 139 and 151).\<close>

record question_fields =
  question :: "json option"
  options :: "json option"
  correct_answer :: "json option"
  question_order :: nat

record new_question = question_fields +
  quiz_id :: nat

record question_row = question_fields +
  id' :: nat

text \<open>
  A response is \<^verbatim>\<open>res.status(n).json(body)\<close>; \<^verbatim>\<open>res.json(body)\<close> alone has status 200.
  The body is \<^verbatim>\<open>{ message }\<close>, \<^verbatim>\<open>{ message, error }\<close> or the array of question rows.
\<close>

datatype body =
    MessageBody string "string option"
  | QuestionsBody "question_row list"

record response =
  status :: nat
  body :: body

text \<open>
  A promise the handler awaits is fulfilled with a value or rejected with an error,
  of which the handler reads the message.
\<close>

datatype 'a settled = Fulfilled 'a | Rejected string

text \<open>
  The store client fulfils a query with \<^verbatim>\<open>{ data, error: null }\<close> or
  \<^verbatim>\<open>{ data: null, error }\<close>; the handler reads \<^verbatim>\<open>code\<close> and \<^verbatim>\<open>message\<close> of an error.
\<close>

record pg_error =
  code :: string
  message :: string

datatype 'a pg_result = Data 'a | Error pg_error

text \<open>
  A chat completion: of each choice, the content of its message
  (\<^verbatim>\<open>string | null\<close>).
\<close>

type_synonym completion = "string option list"

text \<open>
  The calls of the handler, on a world \<open>'w\<close> that holds whatever the store and the
  model depend on. In the order of the source: the quiz by domain (lines 26 to 30),
  the new quiz (41 to 45), the ids of a quiz's questions (55 to 58), its questions
  in order (65 to 69 and 149 to 153), the new questions (141 to 143), and the chat
  completion (97 to 102).
\<close>

record 'w clients =
  select_quiz :: "string \<Rightarrow> 'w \<Rightarrow> nat pg_result settled \<times> 'w"
  insert_quiz :: "string \<Rightarrow> string \<Rightarrow> 'w \<Rightarrow> nat pg_result settled \<times> 'w"
  select_question_ids :: "nat \<Rightarrow> 'w \<Rightarrow> nat list pg_result settled \<times> 'w"
  select_questions :: "nat \<Rightarrow> 'w \<Rightarrow> question_row list pg_result settled \<times> 'w"
  insert_questions :: "new_question list \<Rightarrow> 'w \<Rightarrow> pg_error option settled \<times> 'w"
  create_completion :: "string \<Rightarrow> 'w \<Rightarrow> completion settled \<times> 'w"

text \<open>The calls a run has made, in order.\<close>

datatype event =
    SelectQuiz string
  | InsertQuiz string string
  | SelectQuestionIds nat
  | SelectQuestions nat
  | InsertQuestions "new_question list"
  | CreateCompletion string

subsection \<open>The pure parts\<close>

definition getDomainTitle :: "string \<Rightarrow> string" where
  "getDomainTitle domain =
     (if domain = ''web-development'' then ''Web Development Quiz''
      else if domain = ''data-science'' then ''Data Science Quiz''
      else if domain = ''backend'' then ''Backend Development Quiz''
      else if domain = ''ai-ml'' then ''AI / ML Quiz''
      else if domain = ''networking'' then ''Computer Networking Quiz''
      else if domain = ''algorithms'' then ''Algorithms & Data Structures Quiz''
      else ''Skill Assessment Quiz'')"

definition prompt :: "string \<Rightarrow> string" where
  \<open>prompt domain =
     ''Generate exactly 10 multiple-choice questions about "'' @ domain @ ''".\<newline>'' @
     ''Each question should have 4 options (A, B, C, D), and the correct answer should be specified by the key "correct_answer" as the option letter.\<newline>'' @
     ''Format your response as a JSON array of 10 objects like:\<newline>'' @
     ''[\<newline>'' @
     ''  {\<newline>'' @
     ''    "question": "What is Linux?",\<newline>'' @
     ''    "options": {\<newline>'' @
     ''      "A": "An OS",\<newline>'' @
     ''      "B": "A programming language",\<newline>'' @
     ''      "C": "A database",\<newline>'' @
     ''      "D": "A cloud service"\<newline>'' @
     ''    },\<newline>'' @
     ''    "correct_answer": "A"\<newline>'' @
     ''  },\<newline>'' @
     ''  ...\<newline>'' @
     '']\<newline>'' @
     ''Return ONLY the JSON array.''\<close>

text \<open>The two error responses and the success response.\<close>

definition domain_required :: response where
  "domain_required = \<lparr>status = 400, body = MessageBody ''Domain is required.'' None\<rparr>"

definition invalid_json :: response where
  "invalid_json = \<lparr>status = 500, body = MessageBody ''Invalid JSON format from OpenAI.'' None\<rparr>"

text \<open>The \<^verbatim>\<open>catch\<close> of lines 160 to 163, for an error with the given message.\<close>

definition internal_error :: "string \<Rightarrow> response" where
  "internal_error msg = \<lparr>status = 500, body = MessageBody ''Internal server error.'' (Some msg)\<rparr>"

definition ok :: "question_row list \<Rightarrow> response" where
  "ok questions = \<lparr>status = 200, body = QuestionsBody questions\<rparr>"

text \<open>
  \<^verbatim>\<open>q.name\<close> for a parsed value that is not null: a member of an object, and
  undefined for a missing one and for every other value.
\<close>

fun property :: "json \<Rightarrow> string \<Rightarrow> json option" where
  "property (JObject ms) name = map_of ms (js name)"
| "property _ name = None"

text \<open>
  Lines 133 to 139. On a null element \<^verbatim>\<open>q.question\<close> throws a TypeError, which leaves
  the \<^verbatim>\<open>map\<close>.
\<close>

definition null_property :: string where
  "null_property = ''Cannot read properties of null (reading '' @ [CHR 0x27] @ ''question'' @ [CHR 0x27] @ '')''"

definition toInsert :: "nat \<Rightarrow> nat \<times> json \<Rightarrow> new_question" where
  "toInsert quizId = (\<lambda>(index, q).
     \<lparr>question = property q ''question'',
      options = property q ''options'',
      correct_answer = property q ''correct_answer'',
      question_order = index + 1,
      quiz_id = quizId\<rparr>)"

definition questionsToInsert :: "nat \<Rightarrow> json list \<Rightarrow> string + new_question list" where
  "questionsToInsert quizId quizQuestions =
     (if JNull \<in> set quizQuestions then Inl null_property
      else Inr (map (toInsert quizId) (enumerate 0 quizQuestions)))"

text \<open>
  Lines 104 to 139, from the completion to the rows to insert: the next state of the
  handler, which is a response or the insertion.
\<close>

datatype task =
    Received query_value
  | AtSelectQuiz string
  | AtInsertQuiz string
  | AtSelectQuestionIds string nat
  | AtSelectExisting nat
  | AtCreateCompletion string nat
  | AtInsertQuestions nat "new_question list"
  | AtSelectInserted nat
  | Sent response

definition rawResponse :: "completion \<Rightarrow> string option" where
  "rawResponse choices = (case choices of [] \<Rightarrow> None | content # _ \<Rightarrow> map_option trim content)"

definition on_completion :: "nat \<Rightarrow> completion \<Rightarrow> task" where
  "on_completion quizId choices =
     (case rawResponse choices of
        None \<Rightarrow> Sent (internal_error ''OpenAI returned empty response.'')
      | Some raw \<Rightarrow>
          if raw = [] then Sent (internal_error ''OpenAI returned empty response.'')
          else
            (case JSON_parse (cleanedResponse raw) of
               None \<Rightarrow> Sent invalid_json
             | Some parsed \<Rightarrow>
                 let quizQuestions = (case parsed of JArray xs \<Rightarrow> xs | _ \<Rightarrow> [])
                 in if length quizQuestions \<noteq> 10 then Sent invalid_json
                    else
                      (case questionsToInsert quizId quizQuestions of
                         Inl msg \<Rightarrow> Sent (internal_error msg)
                       | Inr rows \<Rightarrow> AtInsertQuestions quizId rows)))"

subsection \<open>The handler, from one await to the next\<close>

text \<open>
  \<^verbatim>\<open>generateQuizHandler\<close> is an async function: it runs from one \<^verbatim>\<open>await\<close> to the
  next, and other requests run in between. A \<open>task\<close> is a request in progress: just
  received, suspended at one of its awaits (with the variables it still needs), or
  answered. \<open>step\<close> settles the awaited call on the world and runs the handler to its
  next await; it returns the call it made.
\<close>

fun step :: "'w clients \<Rightarrow> task \<Rightarrow> 'w \<Rightarrow> task \<times> 'w \<times> event list" where
  "step c (Received domain) w =
     (case domain of
        Single d \<Rightarrow> if d = [] then (Sent domain_required, w, []) else (AtSelectQuiz d, w, [])
      | _ \<Rightarrow> (Sent domain_required, w, []))"
| "step c (AtSelectQuiz domain) w =
     (case select_quiz c domain w of (r, w') \<Rightarrow>
        ((case r of
            Rejected msg \<Rightarrow> Sent (internal_error msg)
          | Fulfilled (Error quizError) \<Rightarrow>
              if code quizError \<noteq> ''PGRST116''
              then Sent (internal_error (''Error checking quiz: '' @ message quizError))
              else AtInsertQuiz domain
          | Fulfilled (Data existingQuiz) \<Rightarrow> AtSelectQuestionIds domain existingQuiz),
         w', [SelectQuiz domain]))"
| "step c (AtInsertQuiz domain) w =
     (case insert_quiz c domain (getDomainTitle domain) w of (r, w') \<Rightarrow>
        ((case r of
            Rejected msg \<Rightarrow> Sent (internal_error msg)
          | Fulfilled (Error createError) \<Rightarrow>
              Sent (internal_error (''Error creating quiz: '' @ message createError))
          | Fulfilled (Data newQuiz) \<Rightarrow> AtSelectQuestionIds domain newQuiz),
         w', [InsertQuiz domain (getDomainTitle domain)]))"
| "step c (AtSelectQuestionIds domain quizId) w =
     (case select_question_ids c quizId w of (r, w') \<Rightarrow>
        ((case r of
            Rejected msg \<Rightarrow> Sent (internal_error msg)
          | Fulfilled (Error questionError) \<Rightarrow>
              Sent (internal_error (''Error checking questions: '' @ message questionError))
          | Fulfilled (Data existingQuestions) \<Rightarrow>
              if 0 < length existingQuestions then AtSelectExisting quizId
              else AtCreateCompletion domain quizId),
         w', [SelectQuestionIds quizId]))"
| "step c (AtSelectExisting quizId) w =
     (case select_questions c quizId w of (r, w') \<Rightarrow>
        ((case r of
            Rejected msg \<Rightarrow> Sent (internal_error msg)
          | Fulfilled (Error fetchError) \<Rightarrow>
              Sent (internal_error (''Error fetching questions: '' @ message fetchError))
          | Fulfilled (Data questions) \<Rightarrow> Sent (ok questions)),
         w', [SelectQuestions quizId]))"
| "step c (AtCreateCompletion domain quizId) w =
     (case create_completion c (prompt domain) w of (r, w') \<Rightarrow>
        ((case r of
            Rejected msg \<Rightarrow> Sent (internal_error msg)
          | Fulfilled choices \<Rightarrow> on_completion quizId choices),
         w', [CreateCompletion (prompt domain)]))"
| "step c (AtInsertQuestions quizId questions) w =
     (case insert_questions c questions w of (r, w') \<Rightarrow>
        ((case r of
            Rejected msg \<Rightarrow> Sent (internal_error msg)
          | Fulfilled (Some insertError) \<Rightarrow>
              Sent (internal_error (''Error inserting questions: '' @ message insertError))
          | Fulfilled None \<Rightarrow> AtSelectInserted quizId),
         w', [InsertQuestions questions]))"
| "step c (AtSelectInserted quizId) w =
     (case select_questions c quizId w of (r, w') \<Rightarrow>
        ((case r of
            Rejected msg \<Rightarrow> Sent (internal_error msg)
          | Fulfilled (Error fetchError) \<Rightarrow>
              Sent (internal_error (''Error fetching inserted questions: '' @ message fetchError))
          | Fulfilled (Data insertedQuestions) \<Rightarrow> Sent (ok insertedQuestions)),
         w', [SelectQuestions quizId]))"
| "step c (Sent r) w = (Sent r, w, [])"

text \<open>The awaits a task still has before it, at most.\<close>

fun awaits_left :: "task \<Rightarrow> nat" where
  "awaits_left (Received _) = 7"
| "awaits_left (AtSelectQuiz _) = 6"
| "awaits_left (AtInsertQuiz _) = 5"
| "awaits_left (AtSelectQuestionIds _ _) = 4"
| "awaits_left (AtCreateCompletion _ _) = 3"
| "awaits_left (AtInsertQuestions _ _) = 2"
| "awaits_left (AtSelectInserted _) = 1"
| "awaits_left (AtSelectExisting _) = 1"
| "awaits_left (Sent _) = 0"

fun sent :: "task \<Rightarrow> bool" where
  "sent (Sent _) = True"
| "sent _ = False"

lemma on_completion_left: "awaits_left (on_completion quizId choices) < 3"
  by (simp add: on_completion_def Let_def split: option.splits sum.splits)

lemma step_decreases:
  "(t', r) = step c t w \<Longrightarrow> sent t \<or> awaits_left t' < awaits_left t"
  by (cases t)
     (auto split: prod.splits settled.splits pg_result.splits query_value.splits
        option.splits if_splits simp: on_completion_left)

text \<open>
  One request handled alone, from a task to its response: the response, the world
  it leaves, and the calls it made.
\<close>

function (sequential) run :: "'w clients \<Rightarrow> task \<Rightarrow> 'w \<Rightarrow> response \<times> 'w \<times> event list" where
  "run c (Sent r) w = (r, w, [])"
| "run c t w =
     (case step c t w of (t', w', es) \<Rightarrow>
        (case run c t' w' of (r, w'', es') \<Rightarrow> (r, w'', es @ es')))"
  by pat_completeness auto
termination
  by (relation "measure (\<lambda>(c, t, w). awaits_left t)")
     (auto simp del: step.simps dest!: step_decreases)

definition generateQuizHandler ::
  "'w clients \<Rightarrow> query_value \<Rightarrow> 'w \<Rightarrow> response \<times> 'w \<times> event list" where
  "generateQuizHandler c domain w = run c (Received domain) w"

subsection \<open>The calls a run has made\<close>

fun is_completion :: "event \<Rightarrow> bool" where
  "is_completion (CreateCompletion _) = True"
| "is_completion _ = False"

fun is_insert_quiz :: "event \<Rightarrow> bool" where
  "is_insert_quiz (InsertQuiz _ _) = True"
| "is_insert_quiz _ = False"

fun is_insert_questions :: "event \<Rightarrow> bool" where
  "is_insert_questions (InsertQuestions _) = True"
| "is_insert_questions _ = False"

definition model_calls :: "event list \<Rightarrow> nat" where
  "model_calls es = length (filter is_completion es)"

definition quiz_inserts :: "event list \<Rightarrow> nat" where
  "quiz_inserts es = length (filter is_insert_quiz es)"

definition question_inserts :: "event list \<Rightarrow> nat" where
  "question_inserts es = length (filter is_insert_questions es)"

section \<open>A store and a model to run the handler against\<close>

text \<open>
  The two tables, kept in memory, and the answers the model will give, in the order
  of the calls. A row of \<open>quiz_questions\<close> is its \<open>quiz_id\<close> with the columns the
  handler selects.
\<close>

record quiz =
  quiz_ident :: nat
  quiz_domain :: string
  quiz_title :: string

record world =
  quizzes :: "quiz list"
  quiz_questions :: "(nat \<times> question_row) list"
  completions :: "completion settled list"

definition no_rows :: pg_error where
  "no_rows = \<lparr>code = ''PGRST116'',
              message = ''JSON object requested, multiple (or no) rows returned''\<rparr>"

definition unique_violation :: pg_error where
  "unique_violation = \<lparr>code = ''23505'',
              message = ''duplicate key value violates unique constraint''\<rparr>"

definition fresh :: "nat list \<Rightarrow> nat" where
  "fresh ids = Suc (foldr max ids 0)"

text \<open>\<^verbatim>\<open>.single()\<close> gives the row when the query has exactly one, and the error PGRST116 otherwise.\<close>

definition mem_select_quiz :: "string \<Rightarrow> world \<Rightarrow> nat pg_result settled \<times> world" where
  "mem_select_quiz d w =
     (case filter (\<lambda>q. quiz_domain q = d) (quizzes w) of
        [q] \<Rightarrow> (Fulfilled (Data (quiz_ident q)), w)
      | _ \<Rightarrow> (Fulfilled (Error no_rows), w))"

text \<open>The table \<open>quizzes\<close> has its domain unique.\<close>

definition mem_insert_quiz :: "string \<Rightarrow> string \<Rightarrow> world \<Rightarrow> nat pg_result settled \<times> world" where
  "mem_insert_quiz d t w =
     (if d \<in> set (map quiz_domain (quizzes w)) then (Fulfilled (Error unique_violation), w)
      else
        let k = fresh (map quiz_ident (quizzes w))
        in (Fulfilled (Data k),
            w\<lparr>quizzes := quizzes w @ [\<lparr>quiz_ident = k, quiz_domain = d, quiz_title = t\<rparr>]\<rparr>))"

definition questions_of :: "nat \<Rightarrow> world \<Rightarrow> question_row list" where
  "questions_of q w = map snd (filter (\<lambda>kr. fst kr = q) (quiz_questions w))"

definition mem_select_question_ids :: "nat \<Rightarrow> world \<Rightarrow> nat list pg_result settled \<times> world" where
  "mem_select_question_ids q w = (Fulfilled (Data (map id' (questions_of q w))), w)"

text \<open>\<^verbatim>\<open>.order('question_order', { ascending: true })\<close>, rows of equal order in the order of their insertion.\<close>

definition mem_select_questions ::
  "nat \<Rightarrow> world \<Rightarrow> question_row list pg_result settled \<times> world" where
  "mem_select_questions q w = (Fulfilled (Data (sort_key question_order (questions_of q w))), w)"

definition stored :: "nat \<Rightarrow> new_question \<Rightarrow> nat \<times> question_row" where
  "stored k r =
     (quiz_id r,
      \<lparr>question = question r, options = options r, correct_answer = correct_answer r,
       question_order = question_order r, id' = k\<rparr>)"

text \<open>One insert stores all its rows at once, with new ids.\<close>

definition mem_insert_questions ::
  "new_question list \<Rightarrow> world \<Rightarrow> pg_error option settled \<times> world" where
  "mem_insert_questions rows w =
     (let k = fresh (map (\<lambda>kr. id' (snd kr)) (quiz_questions w))
      in (Fulfilled None,
          w\<lparr>quiz_questions :=
               quiz_questions w @ map (\<lambda>(i, r). stored (k + i) r) (enumerate 0 rows)\<rparr>))"

definition mem_create_completion :: "string \<Rightarrow> world \<Rightarrow> completion settled \<times> world" where
  "mem_create_completion p w =
     (case completions w of
        [] \<Rightarrow> (Rejected ''Connection error.'', w)
      | r # rs \<Rightarrow> (r, w\<lparr>completions := rs\<rparr>))"

definition memory :: "world clients" where
  "memory =
     \<lparr>select_quiz = mem_select_quiz,
      insert_quiz = mem_insert_quiz,
      select_question_ids = mem_select_question_ids,
      select_questions = mem_select_questions,
      insert_questions = mem_insert_questions,
      create_completion = mem_create_completion\<rparr>"

definition empty_world :: "completion settled list \<Rightarrow> world" where
  "empty_world answers = \<lparr>quizzes = [], quiz_questions = [], completions = answers\<rparr>"

subsection \<open>Requests in flight together\<close>

text \<open>
  The server runs the handlers of several requests on one event loop: at each turn
  one of them runs from its await to the next. A schedule names the request that
  runs at each turn.
\<close>

record 'w server =
  tasks :: "task list"
  state :: 'w
  calls :: "event list"

definition turn :: "'w clients \<Rightarrow> nat \<Rightarrow> 'w server \<Rightarrow> 'w server" where
  "turn c i s =
     (if i < length (tasks s) then
        (case step c (tasks s ! i) (state s) of
           (t', w', es) \<Rightarrow> \<lparr>tasks = (tasks s)[i := t'], state = w', calls = calls s @ es\<rparr>)
      else s)"

fun serve :: "'w clients \<Rightarrow> nat list \<Rightarrow> 'w server \<Rightarrow> 'w server" where
  "serve c [] s = s"
| "serve c (i # schedule) s = serve c schedule (turn c i s)"

definition arrivals :: "query_value list \<Rightarrow> 'w \<Rightarrow> 'w server" where
  "arrivals requests w = \<lparr>tasks = map Received requests, state = w, calls = []\<rparr>"

subsection \<open>One request after another\<close>

text \<open>Requests handled one at a time, each to its response before the next arrives.\<close>

fun handle_all ::
  "'w clients \<Rightarrow> query_value list \<Rightarrow> 'w \<Rightarrow> response list \<times> 'w \<times> event list" where
  "handle_all c [] w = ([], w, [])"
| "handle_all c (q # qs) w =
     (case generateQuizHandler c q w of (r, w', es) \<Rightarrow>
        (case handle_all c qs w' of (rs, w'', es') \<Rightarrow> (r # rs, w'', es @ es')))"

subsection \<open>The shapes of a response\<close>

text \<open>
  A 400 with a message alone, a 500 with a message, or a 200 with an array of
  questions.
\<close>

definition well_formed :: "response \<Rightarrow> bool" where
  "well_formed r =
     (case body r of
        MessageBody m e \<Rightarrow> (status r = 400 \<and> e = None) \<or> status r = 500
      | QuestionsBody qs \<Rightarrow> status r = 200)"

text \<open>
  The error handler of the application (\<^verbatim>\<open>backend/src/index.ts\<close>, lines 27 to 33),
  given \<^verbatim>\<open>process.env.NODE_ENV\<close> and the message of the error.
\<close>

definition globalErrorHandler :: "string option \<Rightarrow> string \<Rightarrow> response" where
  "globalErrorHandler NODE_ENV err_message =
     \<lparr>status = 500,
      body = MessageBody ''Internal server error''
               (if NODE_ENV = Some ''production'' then None else Some err_message)\<rparr>"

text \<open>A store that cannot be reached: the quiz lookup fails with a connection error.\<close>

definition connection_failure :: pg_error where
  "connection_failure = \<lparr>code = ''08006'', message = ''connection failure''\<rparr>"

definition outage :: "world clients" where
  "outage = memory\<lparr>select_quiz := (\<lambda>d w. (Fulfilled (Error connection_failure), w))\<rparr>"

subsection \<open>The store in memory, as the handler sees it\<close>

text \<open>
  \<open>reread q w\<close> is the response that sends the questions of quiz \<open>q\<close> in order,
  \<open>added rows w\<close> the world after the insertion of the rows, \<open>with_quiz d w\<close> the world
  after the insertion of a quiz for the domain. In \<open>ten_in_order\<close> every quiz that has
  questions has ten, numbered 1 to 10; \<open>orders_sent\<close> reads the numbers of the
  questions a response sends; in a \<open>referential\<close> world every question belongs to a
  quiz of the table.
\<close>

definition reread :: "nat \<Rightarrow> world \<Rightarrow> response" where
  "reread q w = ok (sort_key question_order (questions_of q w))"

definition added :: "new_question list \<Rightarrow> world \<Rightarrow> world" where
  "added rows w = snd (mem_insert_questions rows w)"

definition with_quiz :: "string \<Rightarrow> world \<Rightarrow> world" where
  "with_quiz d w =
     w\<lparr>quizzes := quizzes w @ [\<lparr>quiz_ident = fresh (map quiz_ident (quizzes w)),
                                 quiz_domain = d, quiz_title = getDomainTitle d\<rparr>]\<rparr>"

definition ten_in_order :: "world \<Rightarrow> bool" where
  "ten_in_order w =
     list_all (\<lambda>q. map question_order (questions_of q w) = [1..<11]) (map fst (quiz_questions w))"

definition orders_sent :: "response \<Rightarrow> nat list" where
  "orders_sent r = (case body r of QuestionsBody qs \<Rightarrow> map question_order qs | MessageBody m e \<Rightarrow> [])"

definition referential :: "world \<Rightarrow> bool" where
  "referential w = list_all (\<lambda>k. k \<in> set (map quiz_ident (quizzes w))) (map fst (quiz_questions w))"

section \<open>Answers of the model that are well formed\<close>

text \<open>
  The prompt asks for a JSON array of objects with a question, four options and the
  letter of the correct one. \<open>render_question\<close> writes such an object,
  \<open>render_unanswered\<close> one that lacks its \<^verbatim>\<open>correct_answer\<close>, and \<open>render_array\<close>
  the array of the given objects. The texts in them are plain: no quote, no
  backslash, no control character. A model may wrap the array in a fence of three
  backticks, with or without the tag json.
\<close>

fun parse_run :: "token list \<Rightarrow> expect \<Rightarrow> frame list \<Rightarrow> (expect \<times> frame list) option" where
  "parse_run [] e st = Some (e, st)"
| "parse_run (t # ts) e st =
     (case parse_step t e st of
        None \<Rightarrow> None
      | Some (e', st') \<Rightarrow> parse_run ts e' st')"

fun self_delimiting :: "token \<Rightarrow> bool" where
  "self_delimiting (TNumber _) = False"
| "self_delimiting TTrue = False"
| "self_delimiting TFalse = False"
| "self_delimiting TNull = False"
| "self_delimiting _ = True"

definition plain :: "char \<Rightarrow> bool" where
  "plain c = (c \<noteq> CHR 0x22 \<and> c \<noteq> CHR 0x5C \<and> 32 \<le> (of_char c :: nat))"

definition quoted :: "string \<Rightarrow> string" where
  "quoted s = CHR 0x22 # s @ [CHR 0x22]"

datatype mcq = MCQ string string string string string string

fun render_question :: "mcq \<Rightarrow> string" where
  \<open>render_question (MCQ q a b c d answer) =
     ''{"question":'' @ quoted q @
     '',"options":{"A":'' @ quoted a @ '',"B":'' @ quoted b @
     '',"C":'' @ quoted c @ '',"D":'' @ quoted d @
     ''},"correct_answer":'' @ quoted answer @ ''}''\<close>

fun render_unanswered :: "mcq \<Rightarrow> string" where
  \<open>render_unanswered (MCQ q a b c d answer) =
     ''{"question":'' @ quoted q @
     '',"options":{"A":'' @ quoted a @ '',"B":'' @ quoted b @
     '',"C":'' @ quoted c @ '',"D":'' @ quoted d @ ''}}''\<close>

fun options_json :: "mcq \<Rightarrow> json" where
  "options_json (MCQ q a b c d answer) =
     JObject [(js ''A'', JString (js a)), (js ''B'', JString (js b)),
              (js ''C'', JString (js c)), (js ''D'', JString (js d))]"

fun question_json :: "mcq \<Rightarrow> json" where
  "question_json (MCQ q a b c d answer) =
     JObject [(js ''question'', JString (js q)),
              (js ''options'', options_json (MCQ q a b c d answer)),
              (js ''correct_answer'', JString (js answer))]"

fun unanswered_json :: "mcq \<Rightarrow> json" where
  "unanswered_json (MCQ q a b c d answer) =
     JObject [(js ''question'', JString (js q)),
              (js ''options'', options_json (MCQ q a b c d answer))]"

fun plain_mcq :: "mcq \<Rightarrow> bool" where
  "plain_mcq (MCQ q a b c d answer) = list_all (list_all plain) [q, a, b, c, d, answer]"

fun join_items :: "string list \<Rightarrow> string" where
  "join_items [] = []"
| "join_items [x] = x"
| "join_items (x # y # ys) = x @ '','' @ join_items (y # ys)"

definition render_array :: "string list \<Rightarrow> string" where
  "render_array items = ''['' @ join_items items @ '']''"

text \<open>The tokens of a text and the values they add to an open array, whatever follows.\<close>

definition renders :: "string \<Rightarrow> json list \<Rightarrow> bool" where
  "renders x vs =
     (\<exists>ts. ts \<noteq> [] \<and> hd ts \<noteq> RBracket
        \<and> (\<forall>r. lex (x @ r) = map_option ((@) ts) (lex r))
        \<and> (\<forall>es st. parse_run ts WantValue (InArray es # st)
                      = Some (WantCommaOrClose, InArray (es @ vs) # st)))"

definition tagged_fence :: "string \<Rightarrow> string" where
  "tagged_fence t = fence @ ''json'' @ [CHR 0x0A] @ t @ [CHR 0x0A] @ fence"

definition untagged_fence :: "string \<Rightarrow> string" where
  "untagged_fence t = fence @ [CHR 0x0A] @ t @ [CHR 0x0A] @ fence"

section \<open>Sample answers and schedules\<close>

text \<open>
  Ten questions, and the answers of a model that writes them out: all ten, all ten with
  the first entry lacking its \<^verbatim>\<open>correct_answer\<close>, and the first nine. \<open>sample_rows\<close> and
  \<open>unanswered_rows\<close> are the rows the handler makes of the parsed entries.
\<close>

definition sample_questions :: "mcq list" where
  "sample_questions =
     [MCQ ''Q1'' ''a'' ''b'' ''c'' ''d'' ''A'', MCQ ''Q2'' ''a'' ''b'' ''c'' ''d'' ''B'',
      MCQ ''Q3'' ''a'' ''b'' ''c'' ''d'' ''C'', MCQ ''Q4'' ''a'' ''b'' ''c'' ''d'' ''D'',
      MCQ ''Q5'' ''a'' ''b'' ''c'' ''d'' ''A'', MCQ ''Q6'' ''a'' ''b'' ''c'' ''d'' ''B'',
      MCQ ''Q7'' ''a'' ''b'' ''c'' ''d'' ''C'', MCQ ''Q8'' ''a'' ''b'' ''c'' ''d'' ''D'',
      MCQ ''Q9'' ''a'' ''b'' ''c'' ''d'' ''A'', MCQ ''Q10'' ''a'' ''b'' ''c'' ''d'' ''B'']"

definition sample_answer :: string where
  "sample_answer = render_array (map render_question sample_questions)"

definition sample_rows :: "nat \<Rightarrow> new_question list" where
  "sample_rows quizId = map (toInsert quizId) (enumerate 0 (map question_json sample_questions))"

definition unanswered_answer :: string where
  "unanswered_answer =
     render_array (render_unanswered (hd sample_questions) # map render_question (tl sample_questions))"

definition unanswered_values :: "json list" where
  "unanswered_values = unanswered_json (hd sample_questions) # map question_json (tl sample_questions)"

definition unanswered_rows :: "nat \<Rightarrow> new_question list" where
  "unanswered_rows quizId = map (toInsert quizId) (enumerate 0 unanswered_values)"

definition nine_answer :: string where
  "nine_answer = render_array (map render_question (butlast sample_questions))"

text \<open>
  A store that is empty but for the answer the model will give, and the store after a
  first request for the domain \<^verbatim>\<open>algorithms\<close> has been served from it, with the calls
  of that request and of a later one.
\<close>

definition sample_start :: world where
  "sample_start = empty_world [Fulfilled [Some sample_answer]]"

definition sample_done :: world where
  "sample_done = added (sample_rows 1) (with_quiz ''algorithms'' (empty_world []))"

definition unanswered_done :: world where
  "unanswered_done = added (unanswered_rows 1) (with_quiz ''algorithms'' (empty_world []))"

definition first_calls :: "event list" where
  "first_calls =
     [SelectQuiz ''algorithms'', InsertQuiz ''algorithms'' ''Algorithms & Data Structures Quiz'',
      SelectQuestionIds 1, CreateCompletion (prompt ''algorithms''),
      InsertQuestions (sample_rows 1), SelectQuestions 1]"

definition later_calls :: "event list" where
  "later_calls = [SelectQuiz ''algorithms'', SelectQuestionIds 1, SelectQuestions 1]"

definition three_requests :: "query_value list" where
  "three_requests = [Single ''algorithms'', Missing, Single ''algorithms'']"

text \<open>
  Two requests for the same new domain in flight together. In the schedule \<open>race\<close>
  the second request looks the quiz up after the first has inserted it, and both check
  for questions before either has inserted any. \<open>race_world\<close> is the store they
  leave.
\<close>

definition race :: "nat list" where
  "race = [0, 0, 0, 1, 1, 0, 1, 0, 1, 0, 1, 0, 1]"

definition two_requests :: "world server" where
  "two_requests =
     arrivals [Single ''algorithms'', Single ''algorithms'']
       (empty_world [Fulfilled [Some sample_answer], Fulfilled [Some sample_answer]])"

fun sent_orders :: "task \<Rightarrow> nat list" where
  "sent_orders (Sent r) = orders_sent r"
| "sent_orders _ = []"

definition race_world :: world where
  "race_world = added (sample_rows 1) (added (sample_rows 1)
                  (with_quiz ''algorithms'' (empty_world [])))"

section \<open>Properties of the handler\<close>

subsection \<open>Runs\<close>

lemma run_unfold:
  "\<not> sent t \<Longrightarrow>
   run c t w =
     (case step c t w of (t', w', es) \<Rightarrow>
        (case run c t' w' of (r, w'', es') \<Rightarrow> (r, w'', es @ es')))"
  by (cases t) (simp_all del: step.simps)

lemma run_cases [case_names Done Step]:
  obtains (Done) r where "t = Sent r" and "run c t w = (r, w, [])"
  | (Step) t' w' es r w'' es' where "\<not> sent t" and "step c t w = (t', w', es)"
      and "run c t' w' = (r, w'', es')" and "run c t w = (r, w'', es @ es')"
      and "awaits_left t' < awaits_left t"
proof (cases "sent t")
  case True
  then obtain r where "t = Sent r" by (cases t) auto
  then show ?thesis using Done by simp
next
  case False
  obtain t' w' es where s: "step c t w = (t', w', es)" by (cases "step c t w")
  obtain r w'' es' where r: "run c t' w' = (r, w'', es')" by (cases "run c t' w'")
  from False s r have "run c t w = (r, w'', es @ es')" by (simp add: run_unfold)
  moreover from s False have "awaits_left t' < awaits_left t"
    using step_decreases [of t' "(w', es)" c t w] by simp
  ultimately show ?thesis using Step False s r by blast
qed

lemma run_Received_Single:
  "d \<noteq> [] \<Longrightarrow> run c (Received (Single d)) w = run c (AtSelectQuiz d) w"
  by (simp split: prod.splits)

text \<open>A request alone on the server is answered within seven turns, as \<open>run\<close> answers it.\<close>

lemma serve_alone:
  "awaits_left t \<le> n \<Longrightarrow> run c t w = (r, w', es) \<Longrightarrow>
   serve c (replicate n 0) \<lparr>tasks = [t], state = w, calls = cs\<rparr>
     = \<lparr>tasks = [Sent r], state = w', calls = cs @ es\<rparr>"
proof (induction n arbitrary: t w cs es r w')
  case 0
  then obtain r0 where "t = Sent r0" by (cases t) auto
  with 0 show ?case by simp
next
  case (Suc n)
  show ?case
  proof (cases rule: run_cases [where t = t and c = c and w = w])
    case (Done r0)
    with Suc.prems(2) have eq: "r0 = r" "w' = w" "es = []" by simp_all
    have "run c (Sent r0) w = (r, w', es)" using Done Suc.prems(2) by simp
    from Suc.IH [OF _ this, of cs] have
      "serve c (replicate n 0) \<lparr>tasks = [Sent r0], state = w, calls = cs\<rparr>
         = \<lparr>tasks = [Sent r], state = w', calls = cs @ es\<rparr>" by simp
    with Done(1) eq show ?thesis by (simp add: turn_def)
  next
    case (Step t1 w1 es1 r2 w2 es2)
    with Suc.prems(2) have eq: "r2 = r" "w2 = w'" "es = es1 @ es2" by simp_all
    from Step(5) Suc.prems(1) have "awaits_left t1 \<le> n" by simp
    from Suc.IH [OF this Step(3), of "cs @ es1"] eq Step(2)
    show ?thesis by (simp add: turn_def del: step.simps)
  qed
qed

subsection \<open>The shape of every response\<close>

lemma on_completion_sent: "on_completion q ch = Sent r \<Longrightarrow> well_formed r"
  by (auto simp: on_completion_def Let_def internal_error_def invalid_json_def well_formed_def
      split: option.splits if_splits sum.splits)

lemma step_sent:
  "step c t w = (Sent r, w', es) \<Longrightarrow> \<not> sent t \<Longrightarrow> well_formed r"
  by (cases t)
     (auto simp: internal_error_def invalid_json_def domain_required_def ok_def well_formed_def
        dest: on_completion_sent [unfolded well_formed_def]
        split: prod.splits settled.splits pg_result.splits query_value.splits
        option.splits if_splits)

lemma run_well_formed:
  "run c t w = (r, w', es) \<Longrightarrow> \<not> sent t \<Longrightarrow> well_formed r"
proof (induction "awaits_left t" arbitrary: t w r w' es rule: less_induct)
  case less
  show ?case
  proof (cases rule: run_cases [where t = t and c = c and w = w])
    case (Done r0)
    with less.prems show ?thesis by simp
  next
    case (Step t1 w1 es1 r2 w2 es2)
    with less.prems have eq: "r2 = r" by simp
    show ?thesis
    proof (cases "sent t1")
      case True
      then obtain r0 where t1: "t1 = Sent r0" by (cases t1) auto
      with Step(3) eq have "r0 = r" by simp
      with Step(2) t1 have "step c t w = (Sent r, w1, es1)" by simp
      then show ?thesis using Step(1) by (rule step_sent)
    next
      case False
      from less.hyps [OF Step(5) _ False] Step(3) eq show ?thesis by blast
    qed
  qed
qed

text \<open>
  Claim C10. Whatever the store and the model answer at each call (a value, an
  error, a rejection, content that is empty or is not the expected JSON), the handler
  answers every request, once: on a server of its own the request is answered within
  seven turns, and the response is a 400 with a message, a 500 with a message or a
  200 with an array of questions. Every throw of the handler is caught inside it.
\<close>

theorem handler_always_responds:
  "well_formed (fst (generateQuizHandler c domain w))
   \<and> tasks (serve c (replicate 7 0) (arrivals [domain] w))
       = [Sent (fst (generateQuizHandler c domain w))]"
proof -
  obtain r w' es where run: "run c (Received domain) w = (r, w', es)"
    by (cases "run c (Received domain) w")
  then have "well_formed r" by (rule run_well_formed) simp
  moreover have "serve c (replicate 7 0) \<lparr>tasks = [Received domain], state = w, calls = []\<rparr>
                  = \<lparr>tasks = [Sent r], state = w', calls = [] @ es\<rparr>"
    by (rule serve_alone [OF _ run]) simp
  ultimately show ?thesis using run by (simp add: generateQuizHandler_def arrivals_def)
qed

subsection \<open>The domain parameter\<close>

text \<open>
  Claim C8. A request whose domain parameter is missing or is the empty string is
  answered 400 with the message "Domain is required.", whatever the clients are:
  the handler makes no call (the list of its calls is empty) and leaves the world,
  with its tables, as it was.
\<close>

theorem domain_required_before_store:
  "generateQuizHandler c Missing w
     = (\<lparr>status = 400, body = MessageBody ''Domain is required.'' None\<rparr>, w, [])
   \<and> generateQuizHandler c (Single []) w
     = (\<lparr>status = 400, body = MessageBody ''Domain is required.'' None\<rparr>, w, [])"
  by (simp add: generateQuizHandler_def domain_required_def)

subsection \<open>Parsing a rendered array\<close>

lemma parse_tokens_append:
  "parse_tokens (ta @ tb) e st =
     (case parse_run ta e st of None \<Rightarrow> None | Some (e', st') \<Rightarrow> parse_tokens tb e' st')"
  by (induction ta arbitrary: e st) (auto split: option.splits)

lemma parse_run_append:
  "parse_run (ta @ tb) e st =
     (case parse_run ta e st of None \<Rightarrow> None | Some (e', st') \<Rightarrow> parse_run tb e' st')"
  by (induction ta arbitrary: e st) (auto split: option.splits)

lemma lex_string_append:
  "lex_string s acc = Some (r, rest) \<Longrightarrow> lex_string (s @ b) acc = Some (r, rest @ b)"
proof (induction s acc rule: lex_string.induct)
  case (1 acc)
  then show ?case by simp
next
  case (2 c cs acc)
  show ?case
  proof (cases "c = CHR 0x22")
    case True
    with 2(4) show ?thesis by simp
  next
    case nq: False
    show ?thesis
    proof (cases "c = CHR 0x5C")
      case bs: True
      show ?thesis
      proof (cases cs)
        case Nil
        with 2(4) nq bs show ?thesis by simp
      next
        case (Cons e es)
        show ?thesis
        proof (cases "e = CHR ''u''")
          case u: True
          from 2(4) nq bs Cons u obtain h1 h2 h3 h4 rest' n where
            es: "es = h1 # h2 # h3 # h4 # rest'" and h: "hex4 h1 h2 h3 h4 = Some n"
            and r: "lex_string rest' (n # acc) = Some (r, rest)"
            by (auto split: list.splits option.splits)
          from 2(1) [OF nq bs Cons u es refl refl refl h r]
          have "lex_string (rest' @ b) (n # acc) = Some (r, rest @ b)" .
          with nq bs Cons u es h show ?thesis by simp
        next
          case nu: False
          from 2(4) nq bs Cons nu obtain n where h: "escape_char e = Some n"
            and r: "lex_string es (n # acc) = Some (r, rest)"
            by (auto split: option.splits)
          from 2(2) [OF nq bs Cons nu h r]
          have "lex_string (es @ b) (n # acc) = Some (r, rest @ b)" .
          with nq bs Cons nu h show ?thesis by simp
        qed
      qed
    next
      case nbs: False
      with 2(4) nq have ctl: "\<not> (of_char c :: nat) < 32"
        and r: "lex_string cs (of_char c # acc) = Some (r, rest)"
        by (auto split: if_splits)
      from 2(3) [OF nq nbs ctl r] nq nbs ctl show ?thesis by simp
    qed
  qed
qed

lemma lex_string_plain:
  "\<forall>c\<in>set q. plain c \<Longrightarrow>
   lex_string (q @ CHR 0x22 # rest) acc = Some (rev acc @ js q, rest)"
  by (induction q arbitrary: acc) (auto simp: plain_def js_def)

lemma lex_quoted:
  "\<forall>c\<in>set q. plain c \<Longrightarrow> lex (quoted q @ rest) = map_option (Cons (TString (js q))) (lex rest)"
  by (simp add: quoted_def lex_string_plain is_json_ws_def)

lemma cons_tokens:
  assumes "map_option (Cons p) (lex cs) = Some ta" and "\<forall>t\<in>set ta. self_delimiting t"
    and "\<And>ta'. lex cs = Some ta' \<Longrightarrow> \<forall>t\<in>set ta'. self_delimiting t \<Longrightarrow>
            lex (cs @ b) = map_option ((@) ta') (lex b)"
  shows "map_option (Cons p) (lex (cs @ b)) = map_option ((@) ta) (lex b)"
proof -
  from assms(1) obtain ta' where ta': "lex cs = Some ta'" "ta = p # ta'" by auto
  with assms(2) have "\<forall>t\<in>set ta'. self_delimiting t" by simp
  from assms(3) [OF ta'(1) this] ta'(2) show ?thesis
    by (cases "lex b") simp_all
qed

lemma lex_other:
  assumes "lex (c # cs) = Some ta" "\<not> is_json_ws c" "c \<notin> set ''{}[]:,''" "c \<noteq> CHR 0x22"
  shows "\<exists>t ts. ta = t # ts \<and> \<not> self_delimiting t"
proof -
  from assms(2-4) have
    "lex (c # cs) =
      (if c = CHR ''-'' \<or> is_digit c then
        (case number_length (c # cs) of
           None \<Rightarrow> None
         | Some n \<Rightarrow> map_option (Cons (TNumber (take n (c # cs)))) (lex (drop n (c # cs))))
      else if take 4 (c # cs) = ''true'' then map_option (Cons TTrue) (lex (drop 3 cs))
      else if take 5 (c # cs) = ''false'' then map_option (Cons TFalse) (lex (drop 4 cs))
      else if take 4 (c # cs) = ''null'' then map_option (Cons TNull) (lex (drop 3 cs))
      else None)"
    by (subst lex.simps) simp
  with assms(1) show ?thesis
    by (simp only: split: if_splits option.splits) auto
qed

lemma lex_punct:
  assumes "\<not> is_json_ws c" and "c \<in> set ''{}[]:,''"
  shows "\<exists>p. self_delimiting p \<and> (\<forall>s. lex (c # s) = map_option (Cons p) (lex s))"
proof -
  let ?p = "if c = CHR ''{'' then LBrace else if c = CHR ''}'' then RBrace
            else if c = CHR ''['' then LBracket else if c = CHR '']'' then RBracket
            else if c = CHR '':'' then Colon else Comma"
  have "self_delimiting ?p" by simp
  moreover have "\<forall>s. lex (c # s) = map_option (Cons ?p) (lex s)"
    using assms by (subst lex.simps) auto
  ultimately show ?thesis by blast
qed

lemma lex_append:
  "lex a = Some ta \<Longrightarrow> \<forall>t\<in>set ta. self_delimiting t \<Longrightarrow>
   lex (a @ b) = map_option ((@) ta) (lex b)"
proof (induction a arbitrary: ta rule: length_induct)
  case (1 a)
  show ?case
  proof (cases a)
    case Nil
    with 1(2) show ?thesis by (simp add: option.map_ident map_option.identity)
  next
    case (Cons c cs)
    have IH: "\<And>ys ta'. length ys < length a \<Longrightarrow> lex ys = Some ta' \<Longrightarrow>
        \<forall>t\<in>set ta'. self_delimiting t \<Longrightarrow> lex (ys @ b) = map_option ((@) ta') (lex b)"
      using 1(1) by blast
    have IHcs: "\<And>ta'. lex cs = Some ta' \<Longrightarrow> \<forall>t\<in>set ta'. self_delimiting t \<Longrightarrow>
        lex (cs @ b) = map_option ((@) ta') (lex b)"
      using IH [of cs] Cons by simp
    note prem = 1(2) [unfolded Cons] and sd = 1(3)
    consider (ws) "is_json_ws c"
      | (punct) "\<not> is_json_ws c" "c \<in> set ''{}[]:,''"
      | (str) "\<not> is_json_ws c" "c \<notin> set ''{}[]:,''" "c = CHR 0x22"
      | (other) "\<not> is_json_ws c" "c \<notin> set ''{}[]:,''" "c \<noteq> CHR 0x22"
      by blast
    then show ?thesis
    proof cases
      case ws
      with prem sd IHcs Cons show ?thesis by simp
    next
      case punct
      from lex_punct [OF punct] obtain p where
        p: "\<And>s. lex (c # s) = map_option (Cons p) (lex s)" by blast
      from prem have "map_option (Cons p) (lex cs) = Some ta" by (simp only: p)
      from cons_tokens [OF this sd IHcs] show ?thesis
        unfolding Cons by (simp only: p append_Cons)
    next
      case str
      with prem obtain s rest ta' where ls: "lex_string cs [] = Some (s, rest)"
        and lr: "lex rest = Some ta'" and ta: "ta = TString s # ta'"
        by (auto split: option.splits)
      from lex_string_shorter [OF ls] Cons have "length rest < length a" by simp
      moreover from sd ta have "\<forall>t\<in>set ta'. self_delimiting t" by simp
      ultimately have "lex (rest @ b) = map_option ((@) ta') (lex b)" using IH lr by blast
      with str ls lex_string_append [OF ls, of b] ta Cons show ?thesis
        by (cases "lex b") simp_all
    next
      case other
      from lex_other [OF prem other] sd show ?thesis by auto
    qed
  qed
qed

lemma renders_comma:
  assumes "renders x vs" and "renders y ws"
  shows "renders (x @ '','' @ y) (vs @ ws)"
proof -
  from assms(1) obtain tx where tx: "tx \<noteq> []" "hd tx \<noteq> RBracket"
    "\<And>r. lex (x @ r) = map_option ((@) tx) (lex r)"
    "\<And>es st. parse_run tx WantValue (InArray es # st)
               = Some (WantCommaOrClose, InArray (es @ vs) # st)"
    unfolding renders_def by blast
  from assms(2) obtain ty where ty: "ty \<noteq> []" "hd ty \<noteq> RBracket"
    "\<And>r. lex (y @ r) = map_option ((@) ty) (lex r)"
    "\<And>es st. parse_run ty WantValue (InArray es # st)
               = Some (WantCommaOrClose, InArray (es @ ws) # st)"
    unfolding renders_def by blast
  let ?ts = "tx @ Comma # ty"
  have "?ts \<noteq> []" "hd ?ts \<noteq> RBracket" using tx(1,2) by simp_all
  moreover have "lex ((x @ '','' @ y) @ r) = map_option ((@) ?ts) (lex r)" for r
  proof -
    have "lex ('','' @ y @ r) = map_option (Cons Comma) (lex (y @ r))"
      by (simp add: is_json_ws_def)
    then show ?thesis using tx(3) [of "'','' @ y @ r"] ty(3) [of r]
      by (cases "lex r") simp_all
  qed
  moreover have "parse_run ?ts WantValue (InArray es # st)
                   = Some (WantCommaOrClose, InArray (es @ vs @ ws) # st)" for es st
    using tx(4) [of es st] ty(4) [of "es @ vs" st] by (simp add: parse_run_append)
  ultimately show ?thesis unfolding renders_def by (intro exI [of _ ?ts]) simp
qed

lemma renders_join:
  "list_all2 (\<lambda>x v. renders x [v]) xs vs \<Longrightarrow> xs \<noteq> [] \<Longrightarrow> renders (join_items xs) vs"
proof (induction xs arbitrary: vs rule: join_items.induct)
  case 1
  then show ?case by simp
next
  case (2 x)
  then show ?case by (auto simp: list_all2_Cons1)
next
  case (3 x y ys)
  from 3(2) obtain v vs' where vs: "vs = v # vs'" "renders x [v]"
    "list_all2 (\<lambda>x v. renders x [v]) (y # ys) vs'"
    by (auto simp: list_all2_Cons1)
  from 3(1) [OF vs(3)] have "renders (join_items (y # ys)) vs'" by simp
  from renders_comma [OF vs(2) this] vs(1) show ?case by simp
qed

lemma parse_rendered_array:
  assumes "renders x vs"
  shows "JSON_parse (''['' @ x @ '']'') = Some (JArray vs)"
proof -
  from assms obtain ts where ts: "ts \<noteq> []" "hd ts \<noteq> RBracket"
    "\<And>r. lex (x @ r) = map_option ((@) ts) (lex r)"
    "\<And>es st. parse_run ts WantValue (InArray es # st)
               = Some (WantCommaOrClose, InArray (es @ vs) # st)"
    unfolding renders_def by blast
  have "lex (''['' @ x @ '']'') = Some (LBracket # ts @ [RBracket])"
    using ts(3) [of "'']''"] by (simp add: is_json_ws_def)
  moreover from ts(1,2) obtain t ts' where t: "ts = t # ts'" "t \<noteq> RBracket"
    by (cases ts) auto
  have "parse_run ts WantValueOrClose [InArray []] = parse_run ts WantValue [InArray []]"
    using t by simp
  then have "parse_tokens (LBracket # ts @ [RBracket]) WantValue [] = Some (JArray vs)"
    using ts(4) [of "[]" "[]"] by (simp add: parse_tokens_append)
  ultimately show ?thesis by (simp add: JSON_parse_def)
qed

lemma renders_question:
  assumes "plain_mcq m"
  shows "renders (render_question m) [question_json m]"
proof -
  obtain q a b c d answer where m: "m = MCQ q a b c d answer" by (cases m)
  let ?ts = "[LBrace, TString (js ''question''), Colon, TString (js q), Comma,
              TString (js ''options''), Colon, LBrace,
              TString (js ''A''), Colon, TString (js a), Comma,
              TString (js ''B''), Colon, TString (js b), Comma,
              TString (js ''C''), Colon, TString (js c), Comma,
              TString (js ''D''), Colon, TString (js d), RBrace, Comma,
              TString (js ''correct_answer''), Colon, TString (js answer), RBrace]"
  from assms m have p: "\<forall>x\<in>set q. plain x" "\<forall>x\<in>set a. plain x" "\<forall>x\<in>set b. plain x"
    "\<forall>x\<in>set c. plain x" "\<forall>x\<in>set d. plain x" "\<forall>x\<in>set answer. plain x"
    by (simp_all add: list_all_iff)
  have "lex (render_question m @ r) = map_option ((@) ?ts) (lex r)" for r
    unfolding m by (cases "lex r") (simp_all add: is_json_ws_def lex_quoted p js_def)
  moreover have "parse_run ?ts WantValue (InArray es # st)
      = Some (WantCommaOrClose, InArray (es @ [question_json m]) # st)" for es st
    unfolding m by (simp add: js_def)
  ultimately show ?thesis unfolding renders_def by (intro exI [of _ ?ts]) simp
qed

lemma renders_unanswered:
  assumes "plain_mcq m"
  shows "renders (render_unanswered m) [unanswered_json m]"
proof -
  obtain q a b c d answer where m: "m = MCQ q a b c d answer" by (cases m)
  let ?ts = "[LBrace, TString (js ''question''), Colon, TString (js q), Comma,
              TString (js ''options''), Colon, LBrace,
              TString (js ''A''), Colon, TString (js a), Comma,
              TString (js ''B''), Colon, TString (js b), Comma,
              TString (js ''C''), Colon, TString (js c), Comma,
              TString (js ''D''), Colon, TString (js d), RBrace, RBrace]"
  from assms m have p: "\<forall>x\<in>set q. plain x" "\<forall>x\<in>set a. plain x" "\<forall>x\<in>set b. plain x"
    "\<forall>x\<in>set c. plain x" "\<forall>x\<in>set d. plain x"
    by (simp_all add: list_all_iff)
  have "lex (render_unanswered m @ r) = map_option ((@) ?ts) (lex r)" for r
    unfolding m by (cases "lex r") (simp_all add: is_json_ws_def lex_quoted p js_def)
  moreover have "parse_run ?ts WantValue (InArray es # st)
      = Some (WantCommaOrClose, InArray (es @ [unanswered_json m]) # st)" for es st
    unfolding m by (simp add: js_def)
  ultimately show ?thesis unfolding renders_def by (intro exI [of _ ?ts]) simp
qed

subsection \<open>Cleaning the answer\<close>

lemma dropWhile_id: "s \<noteq> [] \<Longrightarrow> \<not> P (hd s) \<Longrightarrow> dropWhile P s = s"
  by (cases s) simp_all

lemma trim_id: "s \<noteq> [] \<Longrightarrow> \<not> is_space (hd s) \<Longrightarrow> \<not> is_space (last s) \<Longrightarrow> trim s = s"
  by (simp add: trim_def dropWhile_id hd_rev)

lemma trim_trailing:
  assumes "s \<noteq> []" "\<not> is_space (hd s)" "\<not> is_space (last s)" "\<forall>c\<in>set ws. is_space c"
  shows "trim (s @ ws) = s"
proof -
  from assms(1,2) have "dropWhile is_space (s @ ws) = s @ ws" by (cases s) simp_all
  moreover have "dropWhile is_space (rev ws @ rev s) = rev s"
    using assms(1,3,4) by (simp add: dropWhile_append dropWhile_id hd_rev)
  ultimately show ?thesis by (simp add: trim_def)
qed

lemma strip_closing_fence_append: "strip_closing_fence (s @ fence) = s"
  by (simp add: strip_closing_fence_def fence_def)

lemma strip_closing_fence_id:
  "s \<noteq> [] \<Longrightarrow> last s \<noteq> CHR 0x60 \<Longrightarrow> strip_closing_fence s = s"
proof -
  assume a: "s \<noteq> []" "last s \<noteq> CHR 0x60"
  have "drop (length s - 3) s \<noteq> fence"
  proof
    assume f: "drop (length s - 3) s = fence"
    from a(1) have "last (drop (length s - 3) s) = last s" by (simp add: last_drop)
    with f a(2) show False by (simp add: fence_def)
  qed
  then show ?thesis by (simp add: strip_closing_fence_def)
qed

lemma ascii_lower_backtick: "ascii_lower c = CHR 0x60 \<Longrightarrow> c = CHR 0x60"
proof (rule ccontr)
  assume a: "ascii_lower c = CHR 0x60" and n: "c \<noteq> CHR 0x60"
  let ?n = "of_char c :: nat"
  from a n have r: "65 \<le> ?n" "?n \<le> 90" and "char_of (?n + 32) = CHR 0x60"
    by (auto simp: ascii_lower_def Let_def split: if_splits)
  then have "(of_char (char_of (?n + 32) :: char) :: nat) = of_char (CHR 0x60)" by simp
  then have "(?n + 32) mod 256 = 96" by simp
  with r show False by simp
qed

lemma strip_json_fence_id:
  assumes "s \<noteq> []" and "hd s \<noteq> CHR 0x60"
  shows "strip_json_fence s = s"
proof -
  from assms obtain a list where s: "s = a # list" "a \<noteq> CHR 0x60" by (cases s) auto
  then have "ascii_lower a \<noteq> CHR 0x60" using ascii_lower_backtick by blast
  with s have "map ascii_lower (take 7 s) \<noteq> fence @ ''json''" by (auto simp: fence_def)
  then show ?thesis by (simp add: strip_json_fence_def)
qed

text \<open>A text that begins with an opening bracket and ends with a closing one is left as it is.\<close>

lemma cleaned_bare:
  assumes "t \<noteq> []" "hd t = CHR ''[''" "last t = CHR '']''"
  shows "trim t = t" and "cleanedResponse t = t"
proof -
  from assms have sp: "\<not> is_space (hd t)" "\<not> is_space (last t)" by (simp_all add: is_space_def)
  with assms(1) show "trim t = t" by (simp add: trim_id)
  from assms have "strip_json_fence t = t" by (simp add: strip_json_fence_id)
  moreover from assms have "strip_closing_fence t = t" by (simp add: strip_closing_fence_id)
  ultimately show "cleanedResponse t = t" using assms(1) sp by (simp add: cleanedResponse_def trim_id)
qed

lemma trim_fenced:
  "trim (tagged_fence t) = tagged_fence t" "trim (untagged_fence t) = untagged_fence t"
  by (rule trim_id; simp add: tagged_fence_def untagged_fence_def fence_def is_space_def)+

lemma cleaned_tagged:
  assumes "t \<noteq> []" "hd t = CHR ''[''" "last t = CHR '']''"
  shows "cleanedResponse (tagged_fence t) = t"
proof -
  from assms have sp: "\<not> is_space (hd t)" "\<not> is_space (last t)" by (simp_all add: is_space_def)
  have "strip_json_fence (tagged_fence t) = t @ [CHR 0x0A] @ fence"
    using assms(1) sp(1)
    by (cases t) (simp_all add: strip_json_fence_def tagged_fence_def fence_def ascii_lower_def is_space_def)
  moreover have "strip_closing_fence ((t @ [CHR 0x0A]) @ fence) = t @ [CHR 0x0A]"
    by (rule strip_closing_fence_append)
  moreover have "trim (t @ [CHR 0x0A]) = t"
    using assms(1) sp by (rule trim_trailing) (simp add: is_space_def)
  ultimately show ?thesis by (simp add: cleanedResponse_def)
qed

lemma cleaned_untagged:
  assumes "t \<noteq> []" "hd t = CHR ''[''" "last t = CHR '']''"
  shows "cleanedResponse (untagged_fence t) = fence @ [CHR 0x0A] @ t"
proof -
  from assms have sp: "\<not> is_space (last t)" by (simp_all add: is_space_def)
  have "strip_json_fence (untagged_fence t) = untagged_fence t"
    by (simp add: strip_json_fence_def untagged_fence_def fence_def ascii_lower_def)
  moreover have "strip_closing_fence ((fence @ [CHR 0x0A] @ t @ [CHR 0x0A]) @ fence) = fence @ [CHR 0x0A] @ t @ [CHR 0x0A]"
    by (rule strip_closing_fence_append)
  moreover have "trim ((fence @ [CHR 0x0A] @ t) @ [CHR 0x0A]) = fence @ [CHR 0x0A] @ t"
    by (rule trim_trailing) (use assms(1) sp in \<open>simp_all add: is_space_def fence_def\<close>)
  ultimately show ?thesis by (simp add: cleanedResponse_def untagged_fence_def)
qed

lemma parse_backtick: "JSON_parse (fence @ s) = None"
  by (simp add: JSON_parse_def fence_def is_json_ws_def is_digit_def)

text \<open>
  Claim C6. The handler removes a closing fence, and an opening fence that carries the
  tag json. For a text that begins with an opening bracket and ends with a closing
  one: wrapped in a tagged fence it is cleaned to the text itself; wrapped in a fence
  without the tag it keeps the opening fence, \<open>JSON_parse\<close> fails on it and the
  handler answers 500 with the message for invalid JSON.
\<close>

theorem untagged_fence_not_removed:
  assumes "t \<noteq> []" and "hd t = CHR ''[''" and "last t = CHR '']''"
  shows "cleanedResponse (trim (tagged_fence t)) = t
       \<and> cleanedResponse (trim (untagged_fence t)) = fence @ [CHR 0x0A] @ t
       \<and> JSON_parse (cleanedResponse (trim (untagged_fence t))) = None
       \<and> on_completion quizId (Some (untagged_fence t) # others) = Sent invalid_json"
proof -
  have nf: "untagged_fence t \<noteq> []" by (simp add: untagged_fence_def fence_def)
  have p: "JSON_parse (cleanedResponse (trim (untagged_fence t))) = None"
    by (simp only: trim_fenced cleaned_untagged [OF assms] parse_backtick)
  then have "on_completion quizId (Some (untagged_fence t) # others) = Sent invalid_json"
    using nf by (simp add: on_completion_def rawResponse_def trim_fenced)
  with p show ?thesis by (simp add: trim_fenced cleaned_tagged [OF assms] cleaned_untagged [OF assms])
qed

subsection \<open>The quiz lookup\<close>

lemma quiz_inserts_append: "quiz_inserts (xs @ ys) = quiz_inserts xs + quiz_inserts ys"
  by (simp add: quiz_inserts_def)

lemma model_calls_append: "model_calls (xs @ ys) = model_calls xs + model_calls ys"
  by (simp add: model_calls_def)

lemma question_inserts_append: "question_inserts (xs @ ys) = question_inserts xs + question_inserts ys"
  by (simp add: question_inserts_def)

lemma step_no_quiz_insert:
  "awaits_left t \<le> 4 \<Longrightarrow> step c t w = (t', w', es) \<Longrightarrow> quiz_inserts es = 0"
  by (cases t) (auto simp: quiz_inserts_def split: prod.splits)

lemma run_no_quiz_insert:
  "awaits_left t \<le> 4 \<Longrightarrow> run c t w = (r, w', es) \<Longrightarrow> quiz_inserts es = 0"
proof (induction "awaits_left t" arbitrary: t w r w' es rule: less_induct)
  case less
  show ?case
  proof (cases rule: run_cases [where t = t and c = c and w = w])
    case (Done r0)
    with less.prems show ?thesis by (simp add: quiz_inserts_def)
  next
    case (Step t1 w1 es1 r2 w2 es2)
    from Step(5) less.prems(1) have "awaits_left t1 \<le> 4" by simp
    from less.hyps [OF Step(5) this Step(3)] have "quiz_inserts es2 = 0" .
    moreover from step_no_quiz_insert [OF less.prems(1) Step(2)] have "quiz_inserts es1 = 0" .
    ultimately show ?thesis using Step(4) less.prems(2) by (simp add: quiz_inserts_append)
  qed
qed

text \<open>
  Claim C7. On the lookup of the quiz by its domain only the error with the code
  PGRST116 (no row) is taken for absence: the handler then inserts a quiz, its second
  call, and inserts one only. Any other error of the lookup, and a lookup that is
  rejected, ends the request with a 500 after that single call: the world is as the
  lookup left it and the model has not been called. When the lookup finds a quiz, none
  is inserted.
\<close>

theorem quiz_lookup_failure_aborts:
  assumes "d \<noteq> []"
    and "select_quiz c d w = (found, w1)"
    and "generateQuizHandler c (Single d) w = (r, w', es)"
  shows "case found of
           Fulfilled (Error e) \<Rightarrow>
             if code e = ''PGRST116''
             then take 2 es = [SelectQuiz d, InsertQuiz d (getDomainTitle d)] \<and> quiz_inserts es = 1
             else r = internal_error (''Error checking quiz: '' @ message e) \<and> status r = 500
                  \<and> w' = w1 \<and> es = [SelectQuiz d] \<and> model_calls es = 0
         | Fulfilled (Data existingQuiz) \<Rightarrow> quiz_inserts es = 0
         | Rejected msg \<Rightarrow>
             r = internal_error msg \<and> status r = 500 \<and> w' = w1 \<and> es = [SelectQuiz d]
             \<and> model_calls es = 0"
proof -
  from assms(1,3) have run: "run c (AtSelectQuiz d) w = (r, w', es)"
    by (simp add: generateQuizHandler_def run_Received_Single)
  show ?thesis
  proof (cases found)
    case (Rejected msg)
    with run assms(2) show ?thesis
      by (auto simp add: model_calls_def internal_error_def)
  next
    case (Fulfilled res)
    show ?thesis
    proof (cases res)
      case (Data q)
      obtain r2 w2 es2 where r2: "run c (AtSelectQuestionIds d q) w1 = (r2, w2, es2)"
        by (cases "run c (AtSelectQuestionIds d q) w1")
      then have "quiz_inserts es2 = 0" using run_no_quiz_insert [of "AtSelectQuestionIds d q"] by simp
      moreover from run assms(2) Fulfilled Data r2 have "es = SelectQuiz d # es2" by simp
      ultimately show ?thesis using Fulfilled Data by (simp add: quiz_inserts_def)
    next
      case (Error e)
      show ?thesis
      proof (cases "code e = ''PGRST116''")
        case False
        with run assms(2) Fulfilled Error show ?thesis
          by (auto simp add: model_calls_def internal_error_def)
      next
        case True
        obtain t3 w3 es3 where s3: "step c (AtInsertQuiz d) w1 = (t3, w3, es3)"
          by (cases "step c (AtInsertQuiz d) w1")
        then have es3: "es3 = [InsertQuiz d (getDomainTitle d)]" by (auto split: prod.splits)
        from s3 have le: "awaits_left t3 \<le> 4" 
          using step_decreases [of t3 "(w3, es3)" c "AtInsertQuiz d" w1] by simp
        obtain r4 w4 es4 where r4: "run c t3 w3 = (r4, w4, es4)" by (cases "run c t3 w3")
        from le r4 have "quiz_inserts es4 = 0" by (rule run_no_quiz_insert)
        moreover from run assms(2) Fulfilled Error True s3 r4 
        have "es = SelectQuiz d # es3 @ es4" by (simp del: step.simps add: run_unfold) (simp)
        ultimately show ?thesis using Fulfilled Error True es3 by (simp add: quiz_inserts_def)
      qed
    qed
  qed
qed

subsection \<open>From the completion to the response\<close>

lemma render_array_ends:
  "render_array xs \<noteq> []" "hd (render_array xs) = CHR ''[''" "last (render_array xs) = CHR '']''"
  by (simp_all add: render_array_def)

lemma parse_render_array:
  "xs \<noteq> [] \<Longrightarrow> list_all2 (\<lambda>x v. renders x [v]) xs vs \<Longrightarrow>
   JSON_parse (render_array xs) = Some (JArray vs)"
  unfolding render_array_def by (rule parse_rendered_array) (rule renders_join)

lemma renders_questions:
  "list_all plain_mcq ms \<Longrightarrow>
   list_all2 (\<lambda>x v. renders x [v]) (map render_question ms) (map question_json ms)"
  by (induction ms) (simp_all add: renders_question)

lemma on_completion_array:
  assumes "JSON_parse t = Some (JArray vs)" and "length vs = 10" and "JNull \<notin> set vs"
    and "t \<noteq> []" "hd t = CHR ''[''" "last t = CHR '']''"
  shows "on_completion quizId (Some t # others)
           = AtInsertQuestions quizId (map (toInsert quizId) (enumerate 0 vs))"
    and "on_completion quizId (Some (tagged_fence t) # others)
           = AtInsertQuestions quizId (map (toInsert quizId) (enumerate 0 vs))"
    and "on_completion quizId (Some (untagged_fence t) # others) = Sent invalid_json"
proof -
  have nf: "tagged_fence t \<noteq> []" "untagged_fence t \<noteq> []"
    by (simp_all add: tagged_fence_def untagged_fence_def fence_def)
  show "on_completion quizId (Some t # others)
           = AtInsertQuestions quizId (map (toInsert quizId) (enumerate 0 vs))"
    using assms
    by (simp add: on_completion_def rawResponse_def cleaned_bare questionsToInsert_def)
  show "on_completion quizId (Some (tagged_fence t) # others)
           = AtInsertQuestions quizId (map (toInsert quizId) (enumerate 0 vs))"
    using assms nf
    by (simp add: on_completion_def rawResponse_def trim_fenced cleaned_tagged
        questionsToInsert_def)
  show "on_completion quizId (Some (untagged_fence t) # others) = Sent invalid_json"
    using assms nf parse_backtick [of "[CHR 0x0A] @ t"]
    by (simp add: on_completion_def rawResponse_def trim_fenced cleaned_untagged)
qed

text \<open>
  Claim C4, for the answers the handler checks. When the cleaned answer of the model
  is not JSON, or is JSON but not an array, or is an array whose length is not 10, the
  handler answers 500 with the message "Invalid JSON format from OpenAI." and makes no
  call after the completion: nothing is inserted, and the array is neither padded nor
  cut. The handler looks at the length of the array only, not at its entries.
\<close>

theorem malformed_answer_rejected:
  assumes "create_completion c (prompt d) w = (Fulfilled (Some content # others), w1)"
    and "trim content \<noteq> []"
    and "case JSON_parse (cleanedResponse (trim content)) of
           None \<Rightarrow> True
         | Some (JArray xs) \<Rightarrow> length xs \<noteq> 10
         | Some _ \<Rightarrow> True"
  shows "run c (AtCreateCompletion d quizId) w
           = (\<lparr>status = 500, body = MessageBody ''Invalid JSON format from OpenAI.'' None\<rparr>,
              w1, [CreateCompletion (prompt d)])"
proof -
  from assms(2,3) have "on_completion quizId (Some content # others) = Sent invalid_json"
    by (auto simp: on_completion_def rawResponse_def Let_def split: option.splits json.splits)
  with assms(1) show ?thesis by (simp add: invalid_json_def)
qed

lemma rows_by_position:
  assumes "length quizQuestions = 10"
  shows "map (toInsert quizId) (enumerate 0 quizQuestions)
       = map (\<lambda>i. \<lparr>question = property (quizQuestions ! i) ''question'',
                          options = property (quizQuestions ! i) ''options'',
                          correct_answer = property (quizQuestions ! i) ''correct_answer'',
                          question_order = i + 1,
                          quiz_id = quizId\<rparr>) [0..<10]"
  using assms by (intro nth_equalityI) (simp_all add: toInsert_def nth_enumerate_eq)

text \<open>
  Claim C5. When the model answers with an array of ten entries, the row made of the
  entry at position \<open>i\<close> has \<open>question_order\<close> \<open>i + 1\<close> and the id of the quiz, the ten
  rows go to the store in one insert, and the body of the 200 is what the select that
  follows the insert returns (the query that orders by \<open>question_order\<close>), not the
  parsed entries.
\<close>

theorem generated_rows_numbered_and_reread:
  assumes "create_completion c (prompt d) w = (Fulfilled (Some content # others), w1)"
    and "trim content \<noteq> []"
    and "JSON_parse (cleanedResponse (trim content)) = Some (JArray quizQuestions)"
    and "length quizQuestions = 10"
    and "JNull \<notin> set quizQuestions"
    and "rows = map (\<lambda>i. \<lparr>question = property (quizQuestions ! i) ''question'',
                          options = property (quizQuestions ! i) ''options'',
                          correct_answer = property (quizQuestions ! i) ''correct_answer'',
                          question_order = i + 1,
                          quiz_id = quizId\<rparr>) [0..<10]"
    and "insert_questions c rows w1 = (Fulfilled None, w2)"
    and "select_questions c quizId w2 = (Fulfilled (Data persisted), w3)"
  shows "run c (AtCreateCompletion d quizId) w
           = (\<lparr>status = 200, body = QuestionsBody persisted\<rparr>, w3,
              [CreateCompletion (prompt d), InsertQuestions rows, SelectQuestions quizId])"
proof -
  have "map (toInsert quizId) (enumerate 0 quizQuestions) = rows"
    unfolding assms(6) using assms(4) by (rule rows_by_position)
  with assms(2,3,4,5)
  have "on_completion quizId (Some content # others) = AtInsertQuestions quizId rows"
    by (simp add: on_completion_def rawResponse_def questionsToInsert_def)
  with assms(1,7,8) show ?thesis by (simp add: ok_def)
qed

subsection \<open>Runs on the store in memory\<close>

lemma memory_simps [simp]:
  "select_quiz memory = mem_select_quiz"
  "insert_quiz memory = mem_insert_quiz"
  "select_question_ids memory = mem_select_question_ids"
  "select_questions memory = mem_select_questions"
  "insert_questions memory = mem_insert_questions"
  "create_completion memory = mem_create_completion"
  by (simp_all add: memory_def)

lemma run_mem_select:
  "run memory (AtSelectInserted q) w = (reread q w, w, [SelectQuestions q])"
  "run memory (AtSelectExisting q) w = (reread q w, w, [SelectQuestions q])"
  by (simp_all add: mem_select_questions_def reread_def)

lemma run_mem_insert:
  "run memory (AtInsertQuestions q rows) w
     = (reread q (added rows w), added rows w, [InsertQuestions rows, SelectQuestions q])"
  by (simp add: mem_insert_questions_def mem_select_questions_def Let_def reread_def added_def)

lemma run_mem_check:
  "run memory (AtSelectQuestionIds d q) w =
     (if questions_of q w \<noteq> [] then (reread q w, w, [SelectQuestionIds q, SelectQuestions q])
      else (case run memory (AtCreateCompletion d q) w of
              (r, w', es) \<Rightarrow> (r, w', SelectQuestionIds q # es)))"
  by (simp add: mem_select_question_ids_def mem_select_questions_def reread_def
      del: step.simps(6) split: prod.splits)

lemma mem_hit:
  assumes "d \<noteq> []" and "mem_select_quiz d w = (Fulfilled (Data q), w)"
    and "questions_of q w \<noteq> []"
  shows "generateQuizHandler memory (Single d) w
           = (reread q w, w, [SelectQuiz d, SelectQuestionIds q, SelectQuestions q])"
  using assms
  by (simp add: generateQuizHandler_def run_Received_Single run_mem_check del: run.simps(5))

lemma status_simps [simp]:
  "status (internal_error m) = 500" "status invalid_json = 500"
  "status domain_required = 400" "status (ok qs) = 200" "status (reread q w) = 200"
  by (simp_all add: internal_error_def invalid_json_def domain_required_def ok_def reread_def)

lemma orders_toInsert:
  "map question_order (map (toInsert q) (enumerate n vs)) = map Suc [n..<n + length vs]"
proof (induction vs arbitrary: n)
  case Nil
  then show ?case by simp
next
  case (Cons v vs)
  have "n < n + length (v # vs)" by simp
  then have "[n..<n + length (v # vs)] = n # [Suc n..<n + length (v # vs)]"
    by (rule upt_conv_Cons)
  moreover have "n + length (v # vs) = Suc n + length vs" by simp
  ultimately have "[n..<n + length (v # vs)] = n # [Suc n..<Suc n + length vs]"
    by (simp only:)
  with Cons [of "Suc n"] show ?case by (simp add: toInsert_def del: upt_Suc)
qed

lemma owner_toInsert: "r \<in> set (map (toInsert q) (enumerate n vs)) \<Longrightarrow> quiz_id r = q"
  by (auto simp: toInsert_def)

text \<open>What the handler does with a completion: an error response, or the insertion of ten rows of the quiz, numbered 1 to 10.\<close>

lemma on_completion_cases:
  obtains (Failed) r where "on_completion q ch = Sent r" and "status r = 500"
  | (Rows) vs where "on_completion q ch = AtInsertQuestions q (map (toInsert q) (enumerate 0 vs))"
      and "length vs = 10"
proof (cases "rawResponse ch")
  case None
  then show ?thesis using Failed [of "internal_error ''OpenAI returned empty response.''"]
    by (simp add: on_completion_def)
next
  case (Some raw)
  show ?thesis
  proof (cases "raw = []")
    case True
    with Some show ?thesis using Failed [of "internal_error ''OpenAI returned empty response.''"]
      by (simp add: on_completion_def)
  next
    case False
    show ?thesis
    proof (cases "JSON_parse (cleanedResponse raw)")
      case None
      with Some False show ?thesis using Failed [of invalid_json]
        by (simp add: on_completion_def)
    next
      case (Some parsed)
      define vs where "vs = (case parsed of JArray xs \<Rightarrow> xs | _ \<Rightarrow> [])"
      show ?thesis
      proof (cases "length vs = 10")
        case ten: True
        show ?thesis
        proof (cases "JNull \<in> set vs")
          case True
          with \<open>rawResponse ch = Some raw\<close> False Some ten vs_def show ?thesis
            using Failed [of "internal_error null_property"]
            by (simp add: on_completion_def questionsToInsert_def)
        next
          case nn: False
          with \<open>rawResponse ch = Some raw\<close> False Some ten vs_def
          have "on_completion q ch = AtInsertQuestions q (map (toInsert q) (enumerate 0 vs))"
            by (simp add: on_completion_def questionsToInsert_def)
          then show ?thesis using ten by (rule Rows)
        qed
      next
        case nten: False
        with \<open>rawResponse ch = Some raw\<close> False Some vs_def show ?thesis
          using Failed [of invalid_json] by (simp add: on_completion_def)
      qed
    qed
  qed
qed

lemma ten_orders:
  "length vs = 10 \<Longrightarrow> map question_order (map (toInsert q) (enumerate 0 vs)) = [1..<11]"
  using orders_toInsert [of q 0 vs] by (simp add: map_Suc_upt)

lemma questions_of_added:
  "\<forall>r\<in>set rows. quiz_id r = q \<Longrightarrow>
   map question_order (questions_of q (added rows w))
     = map question_order (questions_of q w) @ map question_order rows"
  "\<forall>r\<in>set rows. quiz_id r = q \<Longrightarrow> q' \<noteq> q \<Longrightarrow>
   questions_of q' (added rows w) = questions_of q' w"
  "quizzes (added rows w) = quizzes w"
  "completions (added rows w) = completions w"
proof -
  let ?k = "fresh (map (\<lambda>kr. id' (snd kr)) (quiz_questions w))"
  let ?new = "map (\<lambda>(i, r). stored (?k + i) r) (enumerate 0 rows)"
  have qq: "quiz_questions (added rows w) = quiz_questions w @ ?new"
    by (simp add: added_def mem_insert_questions_def Let_def)
  show "quizzes (added rows w) = quizzes w" "completions (added rows w) = completions w"
    by (simp_all add: added_def mem_insert_questions_def Let_def)
  {
    assume own: "\<forall>r\<in>set rows. quiz_id r = q"
    have a: "map (question_order \<circ> snd) (filter (\<lambda>kr. fst kr = q) (map (\<lambda>(i, r). stored (k + i) r) (enumerate n rows')))
           = map question_order rows'" if "\<forall>r\<in>set rows'. quiz_id r = q" for rows' n k
      using that by (induction rows' arbitrary: n) (simp_all add: stored_def)
    from a [OF own] show "map question_order (questions_of q (added rows w))
        = map question_order (questions_of q w) @ map question_order rows"
      by (simp add: questions_of_def qq)
    assume ne: "q' \<noteq> q"
    have b: "filter (\<lambda>kr. fst kr = q') (map (\<lambda>(i, r). stored (k + i) r) (enumerate n rows')) = []"
      if "\<forall>r\<in>set rows'. quiz_id r = q" for rows' n k
      using that ne by (induction rows' arbitrary: n) (simp_all add: stored_def)
    from b [OF own] show "questions_of q' (added rows w) = questions_of q' w"
      by (simp add: questions_of_def qq)
  }
qed

lemma questions_of_cong:
  "quiz_questions w1 = quiz_questions w \<Longrightarrow> questions_of q w1 = questions_of q w"
  by (simp add: questions_of_def)

lemma mem_select_quiz_world: "snd (mem_select_quiz d w) = w"
  by (simp add: mem_select_quiz_def split: list.splits)

lemma mem_select_quiz_cong:
  "quizzes w1 = quizzes w \<Longrightarrow> fst (mem_select_quiz d w1) = fst (mem_select_quiz d w)"
  by (simp add: mem_select_quiz_def split: list.splits)

lemma calls_simps [simp]:
  "model_calls [] = 0" "model_calls (e # es) = (if is_completion e then 1 else 0) + model_calls es"
  "question_inserts [] = 0"
  "question_inserts (e # es) = (if is_insert_questions e then 1 else 0) + question_inserts es"
  "quiz_inserts [] = 0"
  "quiz_inserts (e # es) = (if is_insert_quiz e then 1 else 0) + quiz_inserts es"
  by (simp_all add: model_calls_def question_inserts_def quiz_inserts_def)

lemma run_mem_completion:
  "run memory (AtCreateCompletion d q) w =
     (case completions w of
        [] \<Rightarrow> (internal_error ''Connection error.'', w, [CreateCompletion (prompt d)])
      | Rejected m # rest \<Rightarrow>
          (internal_error m, w\<lparr>completions := rest\<rparr>, [CreateCompletion (prompt d)])
      | Fulfilled ch # rest \<Rightarrow>
          (case run memory (on_completion q ch) (w\<lparr>completions := rest\<rparr>) of
             (r, w', es) \<Rightarrow> (r, w', CreateCompletion (prompt d) # es)))"
  by (simp add: mem_create_completion_def split: list.splits settled.splits prod.splits)

declare run.simps [simp del]

lemma run_Sent [simp]: "run c (Sent r) w = (r, w, [])"
  by (simp add: run.simps)

lemma run_mem_completion_cases [consumes 1, case_names Failed Generated]:
  assumes "run memory (AtCreateCompletion d q) w = (r, w', es)"
  obtains (Failed) "status r = 500" and "quizzes w' = quizzes w"
      and "quiz_questions w' = quiz_questions w" and "es = [CreateCompletion (prompt d)]"
  | (Generated) vs w1 where "length vs = 10" and "quizzes w1 = quizzes w"
      and "quiz_questions w1 = quiz_questions w"
      and "w' = added (map (toInsert q) (enumerate 0 vs)) w1" and "r = reread q w'"
      and "es = [CreateCompletion (prompt d),
                 InsertQuestions (map (toInsert q) (enumerate 0 vs)), SelectQuestions q]"
proof (cases "completions w")
  case Nil
  with assms have "status r = 500" "quizzes w' = quizzes w"
    "quiz_questions w' = quiz_questions w" "es = [CreateCompletion (prompt d)]"
    by (auto simp: run_mem_completion)
  then show ?thesis by (rule Failed)
next
  case (Cons answer rest)
  let ?w1 = "w\<lparr>completions := rest\<rparr>"
  show ?thesis
  proof (cases answer)
    case (Rejected m)
    with assms Cons have "status r = 500" "quizzes w' = quizzes w"
      "quiz_questions w' = quiz_questions w" "es = [CreateCompletion (prompt d)]"
      by (auto simp: run_mem_completion)
    then show ?thesis by (rule Failed)
  next
    case (Fulfilled ch)
    show ?thesis
    proof (cases rule: on_completion_cases [of q ch])
      case (Failed r0)
      with assms Cons Fulfilled have "status r = 500" "quizzes w' = quizzes w"
        "quiz_questions w' = quiz_questions w" "es = [CreateCompletion (prompt d)]"
        by (auto simp: run_mem_completion)
      then show ?thesis by (rule that(1))
    next
      case (Rows vs)
      let ?rows = "map (toInsert q) (enumerate 0 vs)"
      from Cons Fulfilled Rows(1)
      have "run memory (AtCreateCompletion d q) w
            = (reread q (added ?rows ?w1), added ?rows ?w1,
              [CreateCompletion (prompt d), InsertQuestions ?rows, SelectQuestions q])"
        by (simp add: run_mem_completion run_mem_insert)
      from assms [symmetric] this
      have "(r, w', es) = (reread q (added ?rows ?w1), added ?rows ?w1,
              [CreateCompletion (prompt d), InsertQuestions ?rows, SelectQuestions q])"
        by (rule trans)
      then have "w' = added ?rows ?w1" "r = reread q (added ?rows ?w1)"
        "es = [CreateCompletion (prompt d), InsertQuestions ?rows, SelectQuestions q]"
        by (simp_all only: prod.inject)
      then have "w' = added ?rows ?w1" "r = reread q w'"
        "es = [CreateCompletion (prompt d), InsertQuestions ?rows, SelectQuestions q]"
        by simp_all
      moreover have "quizzes ?w1 = quizzes w" "quiz_questions ?w1 = quiz_questions w" by simp_all
      ultimately show ?thesis using that(2) [of vs ?w1] Rows(2) by blast
    qed
  qed
qed

lemma run_mem_check_cases [consumes 1, case_names Hit Failed Generated]:
  assumes "run memory (AtSelectQuestionIds d q) w = (r, w', es)"
  obtains (Hit) "questions_of q w \<noteq> []" and "r = reread q w" and "w' = w"
      and "es = [SelectQuestionIds q, SelectQuestions q]"
  | (Failed) "questions_of q w = []" and "status r = 500" and "quizzes w' = quizzes w"
      and "quiz_questions w' = quiz_questions w"
      and "es = [SelectQuestionIds q, CreateCompletion (prompt d)]"
  | (Generated) vs w1 where "questions_of q w = []" and "length vs = 10"
      and "quizzes w1 = quizzes w" and "quiz_questions w1 = quiz_questions w"
      and "w' = added (map (toInsert q) (enumerate 0 vs)) w1" and "r = reread q w'"
      and "es = [SelectQuestionIds q, CreateCompletion (prompt d),
                 InsertQuestions (map (toInsert q) (enumerate 0 vs)), SelectQuestions q]"
proof (cases "questions_of q w = []")
  case False
  then have "run memory (AtSelectQuestionIds d q) w
      = (reread q w, w, [SelectQuestionIds q, SelectQuestions q])"
    by (simp add: run_mem_check)
  from assms [symmetric] this
  have "(r, w', es) = (reread q w, w, [SelectQuestionIds q, SelectQuestions q])"
    by (rule trans)
  then have "r = reread q w" "w' = w" "es = [SelectQuestionIds q, SelectQuestions q]"
    by (simp_all only: prod.inject)
  with False show ?thesis by (rule Hit)
next
  case True
  obtain r2 w2 es2 where r2: "run memory (AtCreateCompletion d q) w = (r2, w2, es2)"
    by (cases "run memory (AtCreateCompletion d q) w")
  with True have "run memory (AtSelectQuestionIds d q) w = (r2, w2, SelectQuestionIds q # es2)"
    by (simp add: run_mem_check)
  from assms [symmetric] this have "(r, w', es) = (r2, w2, SelectQuestionIds q # es2)"
    by (rule trans)
  then have eq: "r = r2" "w' = w2" "es = SelectQuestionIds q # es2"
    by (simp_all only: prod.inject)
  from r2 show ?thesis
  proof (cases rule: run_mem_completion_cases)
    case Failed
    with eq have "status r = 500" "quizzes w' = quizzes w"
      "quiz_questions w' = quiz_questions w"
      "es = [SelectQuestionIds q, CreateCompletion (prompt d)]" by simp_all
    with True show ?thesis by (rule that(2))
  next
    case (Generated vs w1)
    with eq have "w' = added (map (toInsert q) (enumerate 0 vs)) w1" "r = reread q w'"
      "es = [SelectQuestionIds q, CreateCompletion (prompt d),
                 InsertQuestions (map (toInsert q) (enumerate 0 vs)), SelectQuestions q]"
      by simp_all
    with True Generated(1,2,3) show ?thesis by (rule that(3))
  qed
qed

lemma run_mem_insert_quiz:
  "run memory (AtInsertQuiz d) w =
     (if d \<in> set (map quiz_domain (quizzes w))
      then (internal_error (''Error creating quiz: '' @ message unique_violation), w,
            [InsertQuiz d (getDomainTitle d)])
      else (case run memory (AtSelectQuestionIds d (fresh (map quiz_ident (quizzes w))))
                   (fst (snd (step memory (AtInsertQuiz d) w))) of
              (r, w', es) \<Rightarrow> (r, w', InsertQuiz d (getDomainTitle d) # es)))"
  by (simp add: run.simps mem_insert_quiz_def Let_def split: prod.splits)

lemma step_mem_insert_quiz:
  "d \<notin> set (map quiz_domain (quizzes w)) \<Longrightarrow>
   fst (snd (step memory (AtInsertQuiz d) w)) = with_quiz d w"
  by (simp add: mem_insert_quiz_def Let_def with_quiz_def)

lemma run_mem_select_quiz:
  "run memory (AtSelectQuiz d) w =
     (case filter (\<lambda>q. quiz_domain q = d) (quizzes w) of
        [q] \<Rightarrow> (case run memory (AtSelectQuestionIds d (quiz_ident q)) w of
                  (r, w', es) \<Rightarrow> (r, w', SelectQuiz d # es))
      | _ \<Rightarrow> (case run memory (AtInsertQuiz d) w of
                  (r, w', es) \<Rightarrow> (r, w', SelectQuiz d # es)))"
  by (simp add: run.simps mem_select_quiz_def no_rows_def split: list.splits prod.splits)

lemma select_after_insert:
  "d \<notin> set (map quiz_domain (quizzes w)) \<Longrightarrow>
   mem_select_quiz d (with_quiz d w)
     = (Fulfilled (Data (fresh (map quiz_ident (quizzes w)))), with_quiz d w)"
proof -
  assume "d \<notin> set (map quiz_domain (quizzes w))"
  then have "filter (\<lambda>q. quiz_domain q = d) (quizzes w) = []"
    by (auto simp: filter_empty_conv)
  then show ?thesis by (simp add: mem_select_quiz_def with_quiz_def)
qed

lemma mem_select_quiz_same:
  assumes "quizzes w' = quizzes w" and "mem_select_quiz d w = (Fulfilled (Data q), w)"
  shows "mem_select_quiz d w' = (Fulfilled (Data q), w')"
  using assms by (auto simp: mem_select_quiz_def split: list.splits)

text \<open>The runs of the handler on the store in memory.\<close>

lemma mem_handler_cases [consumes 1, case_names Invalid Failed Hit Generated]:
  assumes "generateQuizHandler memory domain w = (r, w', es)"
  obtains (Invalid) "r = domain_required" and "w' = w" and "es = []"
  | (Failed) "status r = 500" and "quiz_questions w' = quiz_questions w"
      and "question_inserts es = 0"
  | (Hit) d q where "domain = Single d" and "d \<noteq> []"
      and "mem_select_quiz d w' = (Fulfilled (Data q), w')"
      and "questions_of q w' \<noteq> []" and "r = reread q w'"
      and "quiz_questions w' = quiz_questions w" and "completions w' = completions w"
      and "model_calls es = 0" and "question_inserts es = 0"
  | (Generated) d q vs w1 where "domain = Single d" and "d \<noteq> []"
      and "mem_select_quiz d w' = (Fulfilled (Data q), w')"
      and "questions_of q w1 = []" and "quiz_questions w1 = quiz_questions w"
      and "length vs = 10" and "w' = added (map (toInsert q) (enumerate 0 vs)) w1"
      and "r = reread q w'" and "model_calls es = 1" and "question_inserts es = 1"
proof (cases "\<exists>d. domain = Single d \<and> d \<noteq> []")
  case False
  then have "run memory (Received domain) w = (domain_required, w, [])"
    by (cases domain) (auto simp: run.simps)
  from assms [unfolded generateQuizHandler_def, symmetric] this
  have "(r, w', es) = (domain_required, w, [])" by (rule trans)
  then have "r = domain_required" "w' = w" "es = []" by (simp_all only: prod.inject)
  then show ?thesis by (rule Invalid)
next
  case True
  then obtain d where d: "domain = Single d" "d \<noteq> []" by blast
  consider (NoQuiz) "status r = 500" "quiz_questions w' = quiz_questions w"
      "question_inserts es = 0"
    | (Quiz) q wq esa esb where "mem_select_quiz d wq = (Fulfilled (Data q), wq)"
        "quiz_questions wq = quiz_questions w" "completions wq = completions w"
        "run memory (AtSelectQuestionIds d q) wq = (r, w', esb)"
        "es = esa @ esb" "model_calls esa = 0" "question_inserts esa = 0"
  proof (cases "filter (\<lambda>q. quiz_domain q = d) (quizzes w)")
    case Nil
    then have fresh_d: "d \<notin> set (map quiz_domain (quizzes w))"
      by (auto simp: filter_empty_conv)
    let ?q = "fresh (map quiz_ident (quizzes w))"
    obtain r1 w1 es1 where r1: "run memory (AtSelectQuestionIds d ?q) (with_quiz d w) = (r1, w1, es1)"
      by (cases "run memory (AtSelectQuestionIds d ?q) (with_quiz d w)")
    with Nil fresh_d d
    have "run memory (Received domain) w
            = (r1, w1, SelectQuiz d # InsertQuiz d (getDomainTitle d) # es1)"
      by (simp add: run_Received_Single run_mem_select_quiz run_mem_insert_quiz
          step_mem_insert_quiz del: step.simps)
    from assms [unfolded generateQuizHandler_def, symmetric] this
    have "(r, w', es) = (r1, w1, SelectQuiz d # InsertQuiz d (getDomainTitle d) # es1)"
      by (rule trans)
    then have eq: "r = r1" "w' = w1" "es = [SelectQuiz d, InsertQuiz d (getDomainTitle d)] @ es1"
      by (simp_all only: prod.inject append_Cons append_Nil)
    have "quiz_questions (with_quiz d w) = quiz_questions w"
      "completions (with_quiz d w) = completions w" by (simp_all add: with_quiz_def)
    moreover from r1 eq have "run memory (AtSelectQuestionIds d ?q) (with_quiz d w) = (r, w', es1)"
      by simp
    moreover have "model_calls [SelectQuiz d, InsertQuiz d (getDomainTitle d)] = 0"
      "question_inserts [SelectQuiz d, InsertQuiz d (getDomainTitle d)] = 0" by simp_all
    ultimately show ?thesis using select_after_insert [OF fresh_d] eq(3)
      by (intro Quiz [where q = ?q and wq = "with_quiz d w" and esb = es1
            and esa = "[SelectQuiz d, InsertQuiz d (getDomainTitle d)]"])
  next
    case (Cons x xs)
    show ?thesis
    proof (cases xs)
      case Nil
      obtain r1 w1 es1 where r1: "run memory (AtSelectQuestionIds d (quiz_ident x)) w = (r1, w1, es1)"
        by (cases "run memory (AtSelectQuestionIds d (quiz_ident x)) w")
      with Cons Nil d have "run memory (Received domain) w = (r1, w1, SelectQuiz d # es1)"
        by (simp add: run_Received_Single run_mem_select_quiz)
      from assms [unfolded generateQuizHandler_def, symmetric] this
      have "(r, w', es) = (r1, w1, SelectQuiz d # es1)" by (rule trans)
      then have eq: "r = r1" "w' = w1" "es = [SelectQuiz d] @ es1"
        by (simp_all only: prod.inject append_Cons append_Nil)
      from Cons Nil have "mem_select_quiz d w = (Fulfilled (Data (quiz_ident x)), w)"
        by (simp add: mem_select_quiz_def)
      moreover from r1 eq have "run memory (AtSelectQuestionIds d (quiz_ident x)) w = (r, w', es1)"
        by simp
      moreover have "model_calls [SelectQuiz d] = 0" "question_inserts [SelectQuiz d] = 0"
        by simp_all
      ultimately show ?thesis using eq(3)
        by (intro Quiz [where q = "quiz_ident x" and wq = w and esb = es1
              and esa = "[SelectQuiz d]"]) simp_all
    next
      case (Cons y ys)
      with \<open>filter (\<lambda>q. quiz_domain q = d) (quizzes w) = x # xs\<close>
      have two: "filter (\<lambda>q. quiz_domain q = d) (quizzes w) = x # y # ys" by simp
      then have "x \<in> set (filter (\<lambda>q. quiz_domain q = d) (quizzes w))" by simp
      then have "d \<in> set (map quiz_domain (quizzes w))" by auto
      with two d have "run memory (Received domain) w
          = (internal_error (''Error creating quiz: '' @ message unique_violation), w,
             [SelectQuiz d, InsertQuiz d (getDomainTitle d)])"
        by (simp add: run_Received_Single run_mem_select_quiz run_mem_insert_quiz)
      from assms [unfolded generateQuizHandler_def, symmetric] this
      have "(r, w', es) = (internal_error (''Error creating quiz: '' @ message unique_violation), w,
             [SelectQuiz d, InsertQuiz d (getDomainTitle d)])" by (rule trans)
      then have "r = internal_error (''Error creating quiz: '' @ message unique_violation)"
        "w' = w" "es = [SelectQuiz d, InsertQuiz d (getDomainTitle d)]"
        by (simp_all only: prod.inject)
      then show ?thesis by (intro NoQuiz) simp_all
    qed
  qed
  then show ?thesis
  proof cases
    case NoQuiz
    then show ?thesis by (rule Failed)
  next
    case (Quiz q w0 es0 es1)
    note sel = Quiz(1) and same = Quiz(2,3) and run = Quiz(4) and es = Quiz(5,6,7)
    from run show ?thesis
    proof (cases rule: run_mem_check_cases)
      case Hit
      have "model_calls es = 0" "question_inserts es = 0"
        using es Hit(4) by (simp_all add: model_calls_append question_inserts_append)
      with sel same d Hit(1,2,3) show ?thesis
        by (intro that(3) [of d q]) simp_all
    next
      case Failed
      have "question_inserts es = 0"
        using es Failed(5) by (simp add: question_inserts_append)
      with same Failed(2,4) show ?thesis
        by (intro that(2)) simp_all
    next
      case (Generated vs w1)
      have "quizzes w' = quizzes w0" using Generated(3,5) by (simp add: questions_of_added)
      note sel' = mem_select_quiz_same [OF this sel]
      have none: "questions_of q w1 = []"
        using questions_of_cong [OF Generated(4), of q] Generated(1) by simp
      have same': "quiz_questions w1 = quiz_questions w" using Generated(4) same(1) by simp
      have "model_calls es = 1" "question_inserts es = 1"
        using es Generated(7) by (simp_all add: model_calls_append question_inserts_append)
      with d sel' none same' Generated(2,5,6) show ?thesis
        by (intro that(4) [of d q w1 vs])
    qed
  qed
qed

subsection \<open>Ten questions, in order\<close>

lemma has_questions: "questions_of q w \<noteq> [] \<longleftrightarrow> q \<in> set (map fst (quiz_questions w))"
  by (auto simp: questions_of_def filter_empty_conv)

lemma ten_in_order_iff:
  "ten_in_order w \<longleftrightarrow>
     (\<forall>q. questions_of q w = [] \<or> map question_order (questions_of q w) = [1..<11])"
  unfolding ten_in_order_def list_all_iff using has_questions [of _ w] by blast

lemma ten_in_order_cong:
  "quiz_questions w' = quiz_questions w \<Longrightarrow> ten_in_order w' = ten_in_order w"
  by (simp add: ten_in_order_def questions_of_def)

lemma reread_in_order:
  assumes "map question_order (questions_of q w) = [1..<11]"
  shows "reread q w = ok (questions_of q w)" and "orders_sent (reread q w) = [1..<11]"
proof -
  from assms have "sorted (map question_order (questions_of q w))" by simp
  then show "reread q w = ok (questions_of q w)"
    by (simp add: reread_def sort_key_id_if_sorted)
  with assms show "orders_sent (reread q w) = [1..<11]" by (simp add: orders_sent_def ok_def)
qed

lemma one_request_keeps_ten:
  assumes "ten_in_order w" and "generateQuizHandler memory domain w = (r, w', es)"
  shows "ten_in_order w' \<and> (status r \<noteq> 200 \<or> orders_sent r = [1..<11])"
  using assms(2)
proof (cases rule: mem_handler_cases)
  case Invalid
  with assms(1) show ?thesis by simp
next
  case Failed
  with assms(1) ten_in_order_cong [OF Failed(2)] show ?thesis by simp
next
  case (Hit d q)
  from assms(1) ten_in_order_cong [OF Hit(6)] have ok: "ten_in_order w'" by simp
  with Hit(4) have "map question_order (questions_of q w') = [1..<11]"
    by (auto simp: ten_in_order_iff)
  with ok Hit(5) show ?thesis by (simp add: reread_in_order(2))
next
  case (Generated d q vs w1)
  let ?rows = "map (toInsert q) (enumerate 0 vs)"
  have own: "\<forall>r\<in>set ?rows. quiz_id r = q" using owner_toInsert by blast
  have same: "questions_of k w1 = questions_of k w" for k
    using questions_of_cong [OF Generated(5)] .
  have q: "map question_order (questions_of q w') = [1..<11]"
  proof -
    have "map question_order (questions_of q w')
            = map question_order (questions_of q w1) @ map question_order ?rows"
      using questions_of_added(1) [OF own, of w1] Generated(7) by (simp only:)
    also have "\<dots> = [1..<11]"
      using Generated(4) ten_orders [OF Generated(6), of q] by (simp only: list.map append_Nil)
    finally show ?thesis .
  qed
  have other: "questions_of k w' = questions_of k w" if "k \<noteq> q" for k
    using questions_of_added(2) [OF own that, of w1] Generated(7) same by simp
  have "ten_in_order w'"
    unfolding ten_in_order_iff
  proof
    fix k
    show "questions_of k w' = [] \<or> map question_order (questions_of k w') = [1..<11]"
      using q other [of k] assms(1) by (cases "k = q") (auto simp: ten_in_order_iff)
  qed
  with q Generated(8) show ?thesis by (simp add: reread_in_order(2))
qed

text \<open>
  Claim C2, for requests handled one after another on the store in memory. If every
  quiz that has questions has ten, numbered 1 to 10 in the order of their insertion,
  then so it is after any list of requests, and every response with status 200 sends
  questions numbered 1 to 10 exactly.
\<close>

theorem sequential_requests_keep_ten:
  assumes "ten_in_order w" and "handle_all memory requests w = (rs, w', es)"
  shows "ten_in_order w' \<and> list_all (\<lambda>r. status r \<noteq> 200 \<or> orders_sent r = [1..<11]) rs"
  using assms
proof (induction requests arbitrary: w rs w' es)
  case Nil
  then show ?case by simp
next
  case (Cons x xs)
  obtain r1 w1 es1 where h: "generateQuizHandler memory x w = (r1, w1, es1)"
    by (cases "generateQuizHandler memory x w")
  obtain rs2 w2 es2 where t: "handle_all memory xs w1 = (rs2, w2, es2)"
    by (cases "handle_all memory xs w1")
  from Cons.prems(2) h t have eq: "rs = r1 # rs2" "w' = w2" by simp_all
  from one_request_keeps_ten [OF Cons.prems(1) h] Cons.IH [OF _ t] eq show ?case by simp
qed

subsection \<open>Questions already stored\<close>

lemma handle_all_hits:
  assumes "d \<noteq> []" and "mem_select_quiz d w = (Fulfilled (Data q), w)"
    and "questions_of q w \<noteq> []"
  shows "handle_all memory (replicate n (Single d)) w
           = (replicate n (reread q w), w,
              concat (replicate n [SelectQuiz d, SelectQuestionIds q, SelectQuestions q]))"
  by (induction n) (simp_all add: mem_hit [OF assms])

lemma model_calls_hits:
  "model_calls (concat (replicate n [SelectQuiz d, SelectQuestionIds q, SelectQuestions q])) = 0"
  by (induction n) simp_all

lemma sorted_reread: "sorted (orders_sent (reread q w))"
  by (simp add: orders_sent_def reread_def ok_def)

lemma added_nonempty:
  assumes "length vs = 10"
  shows "questions_of q (added (map (toInsert q) (enumerate 0 vs)) w1) \<noteq> []"
proof -
  have own: "\<forall>r\<in>set (map (toInsert q) (enumerate 0 vs)). quiz_id r = q"
    using owner_toInsert by blast
  have "length (map question_order (questions_of q (added (map (toInsert q) (enumerate 0 vs)) w1)))
          = length (questions_of q w1) + 10"
    by (simp only: questions_of_added(1) [OF own] length_append length_map length_enumerate assms)
  then show ?thesis by auto
qed

text \<open>
  Claim C3. When the check for questions of the quiz returns at least one id, the
  handler answers 200 with what the ordered select returns, and these two are its only
  calls: the model is not called. On the store in memory, after a request answered
  200 any number of further requests for the same domain, one after another, get the
  same response, in ascending \<open>question_order\<close>, leave the store as it is and never
  call the model.
\<close>

theorem stored_questions_skip_model:
  "(select_question_ids c quizId w = (Fulfilled (Data existingQuestions), wa)
      \<and> existingQuestions \<noteq> []
      \<and> select_questions c quizId wa = (Fulfilled (Data questions), wb)
    \<longrightarrow> run c (AtSelectQuestionIds d quizId) w
          = (\<lparr>status = 200, body = QuestionsBody questions\<rparr>, wb,
             [SelectQuestionIds quizId, SelectQuestions quizId]))
   \<and> (generateQuizHandler memory domain v = (r, v', es) \<and> status r = 200
    \<longrightarrow> sorted (orders_sent r)
        \<and> (\<exists>es'. handle_all memory (replicate n domain) v' = (replicate n r, v', es')
                  \<and> model_calls es' = 0))"
proof (intro conjI impI)
  assume "select_question_ids c quizId w = (Fulfilled (Data existingQuestions), wa)
      \<and> existingQuestions \<noteq> []
      \<and> select_questions c quizId wa = (Fulfilled (Data questions), wb)"
  then show "run c (AtSelectQuestionIds d quizId) w
          = (\<lparr>status = 200, body = QuestionsBody questions\<rparr>, wb,
             [SelectQuestionIds quizId, SelectQuestions quizId])"
    by (simp add: ok_def run.simps)
next
  assume a: "generateQuizHandler memory domain v = (r, v', es) \<and> status r = 200"
  then have h: "generateQuizHandler memory domain v = (r, v', es)" and s: "status r = 200"
    by simp_all
  from h have "\<exists>d q. domain = Single d \<and> d \<noteq> []
      \<and> mem_select_quiz d v' = (Fulfilled (Data q), v') \<and> questions_of q v' \<noteq> []
      \<and> r = reread q v'"
  proof (cases rule: mem_handler_cases)
    case Invalid
    with s show ?thesis by simp
  next
    case Failed
    with s show ?thesis by simp
  next
    case (Hit d q)
    then show ?thesis by blast
  next
    case (Generated d q vs w1)
    with added_nonempty [OF Generated(6), of q w1] show ?thesis by blast
  qed
  then obtain d q where d: "domain = Single d" "d \<noteq> []"
    "mem_select_quiz d v' = (Fulfilled (Data q), v')" "questions_of q v' \<noteq> []"
    "r = reread q v'" by blast
  show "sorted (orders_sent r)" using d(5) by (simp add: sorted_reread)
  from handle_all_hits [OF d(2,3,4), of n] d(1,5) model_calls_hits [of n d q]
  show "\<exists>es'. handle_all memory (replicate n domain) v' = (replicate n r, v', es')
                  \<and> model_calls es' = 0"
    by auto
qed

subsection \<open>The first request for a domain and those after it\<close>

lemma le_foldr_max: "x \<in> set ids \<Longrightarrow> x \<le> foldr max ids (0::nat)"
  by (induction ids) (auto simp: max_def)

lemma fresh_notin: "fresh ids \<notin> set ids"
  using le_foldr_max [of "fresh ids" ids] by (auto simp: fresh_def)

lemma referential_fresh:
  assumes "referential w"
  shows "questions_of (fresh (map quiz_ident (quizzes w))) w = []"
proof -
  let ?q = "fresh (map quiz_ident (quizzes w))"
  have "?q \<notin> set (map fst (quiz_questions w))"
    using assms fresh_notin [of "map quiz_ident (quizzes w)"]
    unfolding referential_def list_all_iff by blast
  then show ?thesis using has_questions [of ?q w] by blast
qed

lemma length_added:
  "length (quiz_questions (added rows w)) = length (quiz_questions w) + length rows"
  by (simp add: added_def mem_insert_questions_def Let_def)

text \<open>The first request for a domain the store has not seen, when the model answers with ten entries.\<close>

lemma first_request:
  assumes "d \<noteq> []" and "d \<notin> set (map quiz_domain (quizzes w))" and "referential w"
    and "completions w = Fulfilled choices # later"
    and "on_completion (fresh (map quiz_ident (quizzes w))) choices
           = AtInsertQuestions (fresh (map quiz_ident (quizzes w))) rows"
  defines "q \<equiv> fresh (map quiz_ident (quizzes w))"
  defines "w' \<equiv> added rows (with_quiz d w\<lparr>completions := later\<rparr>)"
  shows "generateQuizHandler memory (Single d) w
           = (reread q w', w',
              [SelectQuiz d, InsertQuiz d (getDomainTitle d), SelectQuestionIds q,
               CreateCompletion (prompt d), InsertQuestions rows, SelectQuestions q])"
proof -
  from assms(2) have none: "filter (\<lambda>x. quiz_domain x = d) (quizzes w) = []"
    by (auto simp: filter_empty_conv)
  have nq: "questions_of q (with_quiz d w) = []"
    using referential_fresh [OF assms(3)] questions_of_cong [of "with_quiz d w" w q]
    by (simp add: with_quiz_def q_def)
  have c: "completions (with_quiz d w) = Fulfilled choices # later"
    using assms(4) by (simp add: with_quiz_def)
  have "run memory (AtCreateCompletion d q) (with_quiz d w)
          = (reread q w', w', [CreateCompletion (prompt d), InsertQuestions rows, SelectQuestions q])"
    using c assms(5) by (simp add: run_mem_completion run_mem_insert q_def w'_def)
  then have "run memory (AtSelectQuestionIds d q) (with_quiz d w)
          = (reread q w', w', [SelectQuestionIds q, CreateCompletion (prompt d),
               InsertQuestions rows, SelectQuestions q])"
    using nq by (simp add: run_mem_check)
  then show ?thesis
    using assms(1,2) none
    by (simp add: generateQuizHandler_def run_Received_Single run_mem_select_quiz
        run_mem_insert_quiz step_mem_insert_quiz q_def del: step.simps)
qed

text \<open>
  Claim C1, for requests handled one after another on the store in memory. For a
  domain the store has no quiz for, when the model answers with an array of ten
  entries, \<open>k + 1\<close> requests for the domain all get the same response, a 200 with
  questions numbered 1 to 10; the model is called once, one insert of questions is
  made, and ten rows are added to the table.
\<close>

theorem sequential_requests_generate_once:
  assumes "d \<noteq> []" and "d \<notin> set (map quiz_domain (quizzes w))" and "referential w"
    and "completions w = Fulfilled (Some content # others) # later"
    and "trim content \<noteq> []"
    and "JSON_parse (cleanedResponse (trim content)) = Some (JArray vs)"
    and "length vs = 10" and "JNull \<notin> set vs"
  shows "\<exists>r w' es. handle_all memory (replicate (Suc k) (Single d)) w = (replicate (Suc k) r, w', es)
          \<and> status r = 200 \<and> orders_sent r = [1..<11]
          \<and> model_calls es = 1 \<and> question_inserts es = 1
          \<and> length (quiz_questions w') = length (quiz_questions w) + 10"
proof -
  define q where "q = fresh (map quiz_ident (quizzes w))"
  define rows where "rows = map (toInsert q) (enumerate 0 vs)"
  define w0 where "w0 = with_quiz d w\<lparr>completions := later\<rparr>"
  define w' where "w' = added rows w0"
  let ?es1 = "[SelectQuiz d, InsertQuiz d (getDomainTitle d), SelectQuestionIds q,
               CreateCompletion (prompt d), InsertQuestions rows, SelectQuestions q]"
  let ?hit = "[SelectQuiz d, SelectQuestionIds q, SelectQuestions q]"
  have oc: "on_completion q (Some content # others) = AtInsertQuestions q rows"
    using assms(5-8) by (simp add: on_completion_def rawResponse_def questionsToInsert_def rows_def)
  have first: "generateQuizHandler memory (Single d) w = (reread q w', w', ?es1)"
    using first_request [OF assms(1,2,3,4) oc [unfolded q_def]]
    by (simp add: q_def w'_def w0_def)
  have own: "\<forall>r\<in>set rows. quiz_id r = q" unfolding rows_def using owner_toInsert by blast
  have "questions_of q w0 = []"
    using referential_fresh [OF assms(3)] questions_of_cong [of w0 w q]
    by (simp add: w0_def with_quiz_def q_def)
  then have orders: "map question_order (questions_of q w') = [1..<11]"
    using questions_of_added(1) [OF own, of w0] ten_orders [OF assms(7), of q]
    by (simp only: w'_def rows_def list.map append_Nil)
  then have "length (map question_order (questions_of q w')) = length [1..<11]" by (simp only:)
  then have ne: "questions_of q w' \<noteq> []" by auto
  have "mem_select_quiz d (with_quiz d w) = (Fulfilled (Data q), with_quiz d w)"
    using select_after_insert [OF assms(2)] by (simp add: q_def)
  moreover have "quizzes w' = quizzes (with_quiz d w)"
    by (simp add: w'_def w0_def questions_of_added)
  ultimately have sel: "mem_select_quiz d w' = (Fulfilled (Data q), w')"
    by (rule mem_select_quiz_same [rotated])
  have rest: "handle_all memory (replicate k (Single d)) w'
      = (replicate k (reread q w'), w', concat (replicate k ?hit))"
    by (rule handle_all_hits [OF assms(1) sel ne])
  define es where "es = ?es1 @ concat (replicate k ?hit)"
  have A: "handle_all memory (replicate (Suc k) (Single d)) w
      = (replicate (Suc k) (reread q w'), w', es)"
    using first rest by (simp add: es_def)
  have B: "model_calls es = 1"
    using model_calls_hits [of k d q] by (simp add: model_calls_append es_def)
  have "question_inserts (concat (replicate k ?hit)) = 0" by (induction k) simp_all
  then have C: "question_inserts es = 1"
    by (simp add: question_inserts_append es_def)
  have D: "orders_sent (reread q w') = [1..<11]" using orders by (rule reread_in_order(2))
  have E: "length (quiz_questions w') = length (quiz_questions w) + 10"
    using assms(7) by (simp add: w'_def length_added rows_def w0_def with_quiz_def)
  have F: "status (reread q w') = 200" by simp
  from A B C D E F show ?thesis by blast
qed

section \<open>Sample runs\<close>

subsection \<open>Two requests in flight together\<close>

lemma sample_plain: "list_all plain_mcq sample_questions"
  by (simp add: sample_questions_def plain_def)

lemma sample_length: "length sample_questions = 10"
  by (simp add: sample_questions_def)

lemma parse_sample:
  "JSON_parse sample_answer = Some (JArray (map question_json sample_questions))"
  unfolding sample_answer_def
  by (rule parse_render_array) (simp_all add: renders_questions sample_plain, simp add: sample_questions_def)

lemma sample_no_null: "JNull \<notin> set (map question_json sample_questions)"
  by (simp add: sample_questions_def)

lemma sample_ends:
  "sample_answer \<noteq> []" "hd sample_answer = CHR ''[''" "last sample_answer = CHR '']''"
  unfolding sample_answer_def by (rule render_array_ends)+

lemma on_completion_sample:
  "on_completion q (Some sample_answer # others) = AtInsertQuestions q (sample_rows q)"
  "on_completion q (Some (tagged_fence sample_answer) # others) = AtInsertQuestions q (sample_rows q)"
  "on_completion q (Some (untagged_fence sample_answer) # others) = Sent invalid_json"
proof -
  have l: "length (map question_json sample_questions) = 10" by (simp add: sample_length)
  note facts = on_completion_array [OF parse_sample l sample_no_null sample_ends, of q others]
  show "on_completion q (Some sample_answer # others) = AtInsertQuestions q (sample_rows q)"
    "on_completion q (Some (tagged_fence sample_answer) # others) = AtInsertQuestions q (sample_rows q)"
    "on_completion q (Some (untagged_fence sample_answer) # others) = Sent invalid_json"
    unfolding sample_rows_def by (rule facts)+
qed

lemma length_sample_rows: "length (sample_rows q) = 10"
  by (simp add: sample_rows_def sample_length)

lemmas mem_defs = mem_select_quiz_def mem_insert_quiz_def mem_select_question_ids_def
      mem_select_questions_def mem_insert_questions_def mem_create_completion_def

text \<open>
  Two requests for the same new domain, interleaved as in \<open>race\<close>: the model is
  called twice, questions are inserted twice, and the quiz ends with twenty rows.
\<close>

theorem interleaved_requests_generate_twice:
  "model_calls (calls (serve memory race two_requests)) = 2
   \<and> question_inserts (calls (serve memory race two_requests)) = 2
   \<and> length (quiz_questions (state (serve memory race two_requests))) = 20"
  by (simp add: race_def two_requests_def arrivals_def empty_world_def turn_def
      on_completion_sample mem_defs questions_of_def fresh_def Let_def no_rows_def
      length_sample_rows)

lemma race_tasks:
  "tasks (serve memory race two_requests) = [Sent (reread 1 race_world), Sent (reread 1 race_world)]"
  by (simp add: race_def two_requests_def arrivals_def empty_world_def turn_def
      on_completion_sample mem_defs questions_of_def fresh_def Let_def no_rows_def
      length_sample_rows race_world_def reread_def added_def with_quiz_def)

lemma map_insort_key: "map f (insort_key f x xs) = insort (f x) (map f xs)"
  by (induction xs) simp_all

lemma map_sort_key: "map f (sort_key f xs) = sort (map f xs)"
  by (induction xs) (simp_all add: map_insort_key)

lemma orders_reread: "orders_sent (reread q w) = sort (map question_order (questions_of q w))"
  by (simp add: orders_sent_def reread_def ok_def map_sort_key)

lemma upt_1_11: "[1..<11] = [1, 2, 3, 4, 5, 6, 7, 8, 9, 10 :: nat]"
  by code_simp

lemma sample_rows_orders: "map question_order (sample_rows q) = [1..<11]"
  unfolding sample_rows_def by (rule ten_orders) (simp add: sample_length)

lemma sample_rows_owner: "\<forall>r\<in>set (sample_rows q). quiz_id r = q"
  unfolding sample_rows_def using owner_toInsert by blast

lemma race_world_orders:
  "map question_order (questions_of 1 race_world) = [1..<11] @ [1..<11]"
proof -
  have "questions_of 1 (with_quiz ''algorithms'' (empty_world [])) = []"
    by (simp add: questions_of_def with_quiz_def empty_world_def)
  then show ?thesis
    unfolding race_world_def
    by (simp only: questions_of_added(1) [OF sample_rows_owner] sample_rows_orders
        list.map append_Nil)
qed

lemma sorted_twice:
  "sort ([1..<11] @ [1..<11])
     = [1, 1, 2, 2, 3, 3, 4, 4, 5, 5, 6, 6, 7, 7, 8, 8, 9, 9, 10, 10 :: nat]"
  by code_simp

lemma race_orders:
  "orders_sent (reread 1 race_world)
     = [1, 1, 2, 2, 3, 3, 4, 4, 5, 5, 6, 6, 7, 7, 8, 8, 9, 9, 10, 10]"
  by (simp only: orders_reread race_world_orders sorted_twice)

text \<open>
  In that same run both requests are answered with twenty questions, every number from
  1 to 10 twice.
\<close>

theorem interleaved_requests_answer_twenty:
  "map sent_orders (tasks (serve memory race two_requests))
     = [[1, 1, 2, 2, 3, 3, 4, 4, 5, 5, 6, 6, 7, 7, 8, 8, 9, 9, 10, 10],
        [1, 1, 2, 2, 3, 3, 4, 4, 5, 5, 6, 6, 7, 7, 8, 8, 9, 9, 10, 10]]"
  by (simp only: race_tasks list.map sent_orders.simps race_orders)

subsection \<open>One request after another\<close>

lemma fresh_Nil: "fresh [] = 1"
  by (simp add: fresh_def)

lemma referential_empty: "referential (empty_world answers)"
  by (simp add: referential_def empty_world_def)

lemma ten_in_order_empty: "ten_in_order (empty_world answers)"
  by (simp add: ten_in_order_def empty_world_def)

lemma sample_first:
  "generateQuizHandler memory (Single ''algorithms'') sample_start
     = (reread 1 sample_done, sample_done, first_calls)"
proof -
  have "generateQuizHandler memory (Single ''algorithms'') (empty_world [Fulfilled [Some sample_answer]])
      = (reread (fresh (map quiz_ident (quizzes (empty_world [Fulfilled [Some sample_answer]]))))
           (added (sample_rows (fresh (map quiz_ident (quizzes (empty_world [Fulfilled [Some sample_answer]])))))
              (with_quiz ''algorithms'' (empty_world [Fulfilled [Some sample_answer]])\<lparr>completions := []\<rparr>)),
         added (sample_rows (fresh (map quiz_ident (quizzes (empty_world [Fulfilled [Some sample_answer]])))))
              (with_quiz ''algorithms'' (empty_world [Fulfilled [Some sample_answer]])\<lparr>completions := []\<rparr>),
         [SelectQuiz ''algorithms'', InsertQuiz ''algorithms'' (getDomainTitle ''algorithms''),
          SelectQuestionIds (fresh (map quiz_ident (quizzes (empty_world [Fulfilled [Some sample_answer]])))),
          CreateCompletion (prompt ''algorithms''),
          InsertQuestions (sample_rows (fresh (map quiz_ident (quizzes (empty_world [Fulfilled [Some sample_answer]]))))),
          SelectQuestions (fresh (map quiz_ident (quizzes (empty_world [Fulfilled [Some sample_answer]]))))])"
    by (rule first_request [OF _ _ referential_empty _ on_completion_sample(1)])
       (simp_all add: empty_world_def)
  moreover have "fresh (map quiz_ident (quizzes (empty_world [Fulfilled [Some sample_answer]]))) = 1"
    by (simp add: empty_world_def fresh_Nil)
  moreover have "with_quiz ''algorithms'' (empty_world [Fulfilled [Some sample_answer]])\<lparr>completions := []\<rparr>
      = with_quiz ''algorithms'' (empty_world [])"
    by (simp add: with_quiz_def empty_world_def)
  moreover have "getDomainTitle ''algorithms'' = ''Algorithms & Data Structures Quiz''"
    by (simp add: getDomainTitle_def)
  ultimately show ?thesis
    by (simp only: sample_start_def sample_done_def first_calls_def)
qed

lemma sample_done_orders: "map question_order (questions_of 1 sample_done) = [1..<11]"
proof -
  have "questions_of 1 (with_quiz ''algorithms'' (empty_world [])) = []"
    by (simp add: questions_of_def with_quiz_def empty_world_def)
  then show ?thesis
    unfolding sample_done_def
    by (simp only: questions_of_added(1) [OF sample_rows_owner] sample_rows_orders
        list.map append_Nil)
qed

lemma sample_done_select:
  "mem_select_quiz ''algorithms'' sample_done = (Fulfilled (Data 1), sample_done)"
  by (simp add: mem_select_quiz_def sample_done_def questions_of_added with_quiz_def
      empty_world_def fresh_Nil)

lemma sample_done_nonempty: "questions_of 1 sample_done \<noteq> []"
proof
  assume "questions_of 1 sample_done = []"
  then have "map question_order (questions_of 1 sample_done) = []" by simp
  then have "length [1..<11::nat] = 0" by (simp only: sample_done_orders list.size)
  then show False by simp
qed

lemma sample_later:
  "generateQuizHandler memory (Single ''algorithms'') sample_done
     = (reread 1 sample_done, sample_done, later_calls)"
  unfolding later_calls_def
  by (rule mem_hit [OF _ sample_done_select sample_done_nonempty]) simp

subsection \<open>An entry without its answer\<close>

lemma renders_unanswered_first:
  "plain_mcq m \<Longrightarrow> list_all plain_mcq ms \<Longrightarrow>
   list_all2 (\<lambda>x v. renders x [v]) (render_unanswered m # map render_question ms)
     (unanswered_json m # map question_json ms)"
  by (simp add: renders_questions renders_unanswered)

lemma parse_unanswered: "JSON_parse unanswered_answer = Some (JArray unanswered_values)"
proof -
  have "plain_mcq (hd sample_questions)" "list_all plain_mcq (tl sample_questions)"
    by (simp_all add: sample_questions_def plain_def)
  then have "list_all2 (\<lambda>x v. renders x [v])
      (render_unanswered (hd sample_questions) # map render_question (tl sample_questions))
      unanswered_values"
    unfolding unanswered_values_def by (rule renders_unanswered_first)
  then show ?thesis
    unfolding unanswered_answer_def by (rule parse_render_array [rotated]) simp
qed

lemma parse_nine:
  "JSON_parse nine_answer = Some (JArray (map question_json (butlast sample_questions)))"
proof -
  have "list_all plain_mcq (butlast sample_questions)"
    by (simp add: sample_questions_def plain_def)
  then have "list_all2 (\<lambda>x v. renders x [v]) (map render_question (butlast sample_questions))
      (map question_json (butlast sample_questions))"
    by (rule renders_questions)
  moreover have "map render_question (butlast sample_questions) \<noteq> []"
    by (simp add: sample_questions_def)
  ultimately show ?thesis
    unfolding nine_answer_def by (rule parse_render_array [rotated])
qed

lemma length_unanswered: "length unanswered_values = 10"
  by (simp add: unanswered_values_def sample_questions_def)

lemma unanswered_no_null: "JNull \<notin> set unanswered_values"
  by (simp add: unanswered_values_def sample_questions_def)

lemma on_completion_unanswered:
  "on_completion q (Some unanswered_answer # others) = AtInsertQuestions q (unanswered_rows q)"
  unfolding unanswered_rows_def
  by (rule on_completion_array(1) [OF parse_unanswered length_unanswered unanswered_no_null])
     (simp_all add: unanswered_answer_def render_array_ends)

lemma unanswered_first:
  "generateQuizHandler memory (Single ''algorithms'') (empty_world [Fulfilled [Some unanswered_answer]])
     = (reread 1 unanswered_done, unanswered_done,
        [SelectQuiz ''algorithms'', InsertQuiz ''algorithms'' ''Algorithms & Data Structures Quiz'',
         SelectQuestionIds 1, CreateCompletion (prompt ''algorithms''),
         InsertQuestions (unanswered_rows 1), SelectQuestions 1])"
proof -
  let ?w = "empty_world [Fulfilled [Some unanswered_answer]]"
  have "generateQuizHandler memory (Single ''algorithms'') ?w
      = (reread (fresh (map quiz_ident (quizzes ?w)))
           (added (unanswered_rows (fresh (map quiz_ident (quizzes ?w))))
              (with_quiz ''algorithms'' ?w\<lparr>completions := []\<rparr>)),
         added (unanswered_rows (fresh (map quiz_ident (quizzes ?w))))
              (with_quiz ''algorithms'' ?w\<lparr>completions := []\<rparr>),
         [SelectQuiz ''algorithms'', InsertQuiz ''algorithms'' (getDomainTitle ''algorithms''),
          SelectQuestionIds (fresh (map quiz_ident (quizzes ?w))),
          CreateCompletion (prompt ''algorithms''),
          InsertQuestions (unanswered_rows (fresh (map quiz_ident (quizzes ?w)))),
          SelectQuestions (fresh (map quiz_ident (quizzes ?w)))])"
    by (rule first_request [OF _ _ referential_empty _ on_completion_unanswered])
       (simp_all add: empty_world_def)
  moreover have "fresh (map quiz_ident (quizzes ?w)) = 1"
    by (simp add: empty_world_def fresh_Nil)
  moreover have "with_quiz ''algorithms'' ?w\<lparr>completions := []\<rparr>
      = with_quiz ''algorithms'' (empty_world [])"
    by (simp add: with_quiz_def empty_world_def)
  moreover have "getDomainTitle ''algorithms'' = ''Algorithms & Data Structures Quiz''"
    by (simp add: getDomainTitle_def)
  ultimately show ?thesis
    by (simp only: unanswered_done_def)
qed

lemma length_unanswered_rows: "length (unanswered_rows q) = 10"
  by (simp add: unanswered_rows_def length_unanswered)

text \<open>
  An array of ten entries whose first entry has no \<^verbatim>\<open>correct_answer\<close>: the handler
  answers 200 and ten rows are stored.
\<close>

theorem unanswered_entry_persisted:
  "JSON_parse unanswered_answer = Some (JArray unanswered_values)
   \<and> length unanswered_values = 10
   \<and> property (hd unanswered_values) ''correct_answer'' = None
   \<and> status (fst (generateQuizHandler memory (Single ''algorithms'')
        (empty_world [Fulfilled [Some unanswered_answer]]))) = 200
   \<and> length (quiz_questions (fst (snd (generateQuizHandler memory (Single ''algorithms'')
        (empty_world [Fulfilled [Some unanswered_answer]]))))) = 10"
proof -
  have "property (hd unanswered_values) ''correct_answer'' = None"
    by (simp add: unanswered_values_def sample_questions_def js_def)
  moreover have "length (quiz_questions unanswered_done) = 10"
    by (simp add: unanswered_done_def length_added length_unanswered_rows with_quiz_def
        empty_world_def)
  ultimately show ?thesis
    by (simp add: parse_unanswered length_unanswered unanswered_first)
qed

subsection \<open>The theorems at the sample\<close>

lemma sample_cleaned: "trim sample_answer = sample_answer" "cleanedResponse sample_answer = sample_answer"
  by (rule cleaned_bare [OF sample_ends])+

lemma nine_cleaned: "trim nine_answer = nine_answer" "cleanedResponse nine_answer = nine_answer"
  by (rule cleaned_bare; simp add: nine_answer_def render_array_ends)+

lemma outage_simps:
  "select_quiz outage = (\<lambda>d w. (Fulfilled (Error connection_failure), w))"
  by (simp add: outage_def)

theorem quiz_lookup_failure_aborts_witness:
  "generateQuizHandler outage (Single ''algorithms'') (empty_world [])
     = (\<lparr>status = 500,
         body = MessageBody ''Internal server error.''
                  (Some ''Error checking quiz: connection failure'')\<rparr>,
        empty_world [], [SelectQuiz ''algorithms''])
   \<and> take 2 (snd (snd (generateQuizHandler memory (Single ''algorithms'') sample_start)))
     = [SelectQuiz ''algorithms'', InsertQuiz ''algorithms'' ''Algorithms & Data Structures Quiz'']"
proof -
  have d: "''algorithms'' \<noteq> []" by simp
  have s: "select_quiz outage ''algorithms'' (empty_world [])
             = (Fulfilled (Error connection_failure), empty_world [])"
    by (simp add: outage_simps)
  obtain r w' es where h: "generateQuizHandler outage (Single ''algorithms'') (empty_world []) = (r, w', es)"
    by (cases "generateQuizHandler outage (Single ''algorithms'') (empty_world [])")
  from quiz_lookup_failure_aborts [OF d s h] have "r = internal_error (''Error checking quiz: '' @ message connection_failure)
      \<and> w' = empty_world [] \<and> es = [SelectQuiz ''algorithms'']"
    by (simp add: connection_failure_def)
  with h have one: "generateQuizHandler outage (Single ''algorithms'') (empty_world [])
     = (\<lparr>status = 500,
         body = MessageBody ''Internal server error.''
                  (Some ''Error checking quiz: connection failure'')\<rparr>,
        empty_world [], [SelectQuiz ''algorithms''])"
    by (simp add: internal_error_def connection_failure_def)
  have s2: "select_quiz memory ''algorithms'' sample_start = (Fulfilled (Error no_rows), sample_start)"
    by (simp add: mem_select_quiz_def sample_start_def empty_world_def)
  from quiz_lookup_failure_aborts [OF d s2 sample_first]
  have "take 2 first_calls = [SelectQuiz ''algorithms'', InsertQuiz ''algorithms'' (getDomainTitle ''algorithms'')]"
    by (simp add: no_rows_def)
  then have two: "take 2 (snd (snd (generateQuizHandler memory (Single ''algorithms'') sample_start)))
     = [SelectQuiz ''algorithms'', InsertQuiz ''algorithms'' ''Algorithms & Data Structures Quiz'']"
    by (simp add: sample_first getDomainTitle_def)
  from one two show ?thesis by (rule conjI)
qed

theorem malformed_answer_rejected_witness:
  "run memory (AtCreateCompletion ''algorithms'' 1)
      (with_quiz ''algorithms'' (empty_world [Fulfilled [Some nine_answer]]))
     = (\<lparr>status = 500, body = MessageBody ''Invalid JSON format from OpenAI.'' None\<rparr>,
        with_quiz ''algorithms'' (empty_world []), [CreateCompletion (prompt ''algorithms'')])
   \<and> run memory (AtCreateCompletion ''algorithms'' 1)
      (with_quiz ''algorithms'' (empty_world [Fulfilled [Some ''Sorry, I cannot help.'']]))
     = (\<lparr>status = 500, body = MessageBody ''Invalid JSON format from OpenAI.'' None\<rparr>,
        with_quiz ''algorithms'' (empty_world []), [CreateCompletion (prompt ''algorithms'')])"
proof -
  have a: "create_completion memory (prompt ''algorithms'')
             (with_quiz ''algorithms'' (empty_world [Fulfilled [Some nine_answer]]))
           = (Fulfilled (Some nine_answer # []), with_quiz ''algorithms'' (empty_world []))"
    by (simp add: mem_create_completion_def with_quiz_def empty_world_def)
  have "nine_answer \<noteq> []" unfolding nine_answer_def by (rule render_array_ends)
  then have b: "trim nine_answer \<noteq> []" by (simp add: nine_cleaned)
  have c: "case JSON_parse (cleanedResponse (trim nine_answer)) of
           None \<Rightarrow> True
         | Some (JArray xs) \<Rightarrow> length xs \<noteq> 10
         | Some _ \<Rightarrow> True"
    by (simp add: nine_cleaned parse_nine sample_length)
  have a': "create_completion memory (prompt ''algorithms'')
             (with_quiz ''algorithms'' (empty_world [Fulfilled [Some ''Sorry, I cannot help.'']]))
           = (Fulfilled (Some ''Sorry, I cannot help.'' # []), with_quiz ''algorithms'' (empty_world []))"
    by (simp add: mem_create_completion_def with_quiz_def empty_world_def)
  have t: "trim ''Sorry, I cannot help.'' = ''Sorry, I cannot help.''"
    by (rule trim_id) (simp_all add: is_space_def)
  have b': "trim ''Sorry, I cannot help.'' \<noteq> []"
    by (simp add: t)
  have p: "JSON_parse (cleanedResponse ''Sorry, I cannot help.'') = None"
    by code_simp
  have c': "case JSON_parse (cleanedResponse (trim ''Sorry, I cannot help.'')) of
           None \<Rightarrow> True
         | Some (JArray xs) \<Rightarrow> length xs \<noteq> 10
         | Some _ \<Rightarrow> True"
    by (simp only: t p option.case)
  from malformed_answer_rejected [OF a b c] malformed_answer_rejected [OF a' b' c'] show ?thesis by (rule conjI)
qed

theorem generated_rows_numbered_and_reread_witness:
  "run memory (AtCreateCompletion ''algorithms'' 1) (with_quiz ''algorithms'' sample_start)
     = (\<lparr>status = 200, body = QuestionsBody (sort_key question_order (questions_of 1 sample_done))\<rparr>,
        sample_done,
        [CreateCompletion (prompt ''algorithms''), InsertQuestions (sample_rows 1), SelectQuestions 1])
   \<and> map question_order (sort_key question_order (questions_of 1 sample_done)) = [1..<11]"
proof -
  let ?qs = "map question_json sample_questions"
  have l: "length ?qs = 10" by (simp add: sample_length)
  have a: "create_completion memory (prompt ''algorithms'') (with_quiz ''algorithms'' sample_start)
           = (Fulfilled (Some sample_answer # []), with_quiz ''algorithms'' (empty_world []))"
    by (simp add: mem_create_completion_def with_quiz_def empty_world_def sample_start_def)
  have b: "trim sample_answer \<noteq> []" by (simp add: sample_cleaned sample_ends)
  have c: "JSON_parse (cleanedResponse (trim sample_answer)) = Some (JArray ?qs)"
    by (simp add: sample_cleaned parse_sample)
  have rows: "sample_rows 1 = map (\<lambda>i. \<lparr>question = property (?qs ! i) ''question'',
                          options = property (?qs ! i) ''options'',
                          correct_answer = property (?qs ! i) ''correct_answer'',
                          question_order = i + 1,
                          quiz_id = 1\<rparr>) [0..<10]"
    unfolding sample_rows_def by (rule rows_by_position [OF l])
  have i: "insert_questions memory (sample_rows 1) (with_quiz ''algorithms'' (empty_world []))
           = (Fulfilled None, sample_done)"
    by (simp add: sample_done_def added_def mem_insert_questions_def Let_def)
  have s: "select_questions memory 1 sample_done
           = (Fulfilled (Data (sort_key question_order (questions_of 1 sample_done))), sample_done)"
    by (simp add: mem_select_questions_def)
  from generated_rows_numbered_and_reread [OF a b c l sample_no_null rows i s] reread_in_order(2) [OF sample_done_orders]
  show ?thesis by (simp add: orders_sent_def reread_def ok_def)
qed

theorem stored_questions_skip_model_witness:
  "run memory (AtSelectQuestionIds ''algorithms'' 1) sample_done
     = (\<lparr>status = 200, body = QuestionsBody (sort_key question_order (questions_of 1 sample_done))\<rparr>,
        sample_done, [SelectQuestionIds 1, SelectQuestions 1])
   \<and> sorted (orders_sent (reread 1 sample_done))
   \<and> (\<exists>es'. handle_all memory (replicate 3 (Single ''algorithms'')) sample_done
               = (replicate 3 (reread 1 sample_done), sample_done, es')
            \<and> model_calls es' = 0)"
proof -
  have a: "select_question_ids memory 1 sample_done
             = (Fulfilled (Data (map id' (questions_of 1 sample_done))), sample_done)
           \<and> map id' (questions_of 1 sample_done) \<noteq> []
           \<and> select_questions memory 1 sample_done
             = (Fulfilled (Data (sort_key question_order (questions_of 1 sample_done))), sample_done)"
    using sample_done_nonempty by (simp add: mem_select_question_ids_def mem_select_questions_def)
  have b: "generateQuizHandler memory (Single ''algorithms'') sample_start
             = (reread 1 sample_done, sample_done, first_calls)
           \<and> status (reread 1 sample_done) = 200"
    by (simp add: sample_first)
  from stored_questions_skip_model [where c = memory and quizId = 1 and w = sample_done and wa = sample_done
      and wb = sample_done and existingQuestions = "map id' (questions_of 1 sample_done)"
      and questions = "sort_key question_order (questions_of 1 sample_done)"
      and d = "''algorithms''" and domain = "Single ''algorithms''" and v = sample_start
      and r = "reread 1 sample_done" and v' = sample_done and es = first_calls and n = 3]
    a b
  show ?thesis by blast
qed

theorem sequential_requests_generate_once_witness:
  "\<exists>r w' es. handle_all memory (replicate (Suc 2) (Single ''algorithms'')) sample_start
                = (replicate (Suc 2) r, w', es)
          \<and> status r = 200 \<and> orders_sent r = [1..<11]
          \<and> model_calls es = 1 \<and> question_inserts es = 1
          \<and> length (quiz_questions w') = length (quiz_questions sample_start) + 10"
proof -
  have a: "''algorithms'' \<noteq> []" by simp
  have b: "''algorithms'' \<notin> set (map quiz_domain (quizzes sample_start))"
    by (simp add: sample_start_def empty_world_def)
  have c: "referential sample_start" unfolding sample_start_def by (rule referential_empty)
  have d: "completions sample_start = Fulfilled (Some sample_answer # []) # []"
    by (simp add: sample_start_def empty_world_def)
  have e: "trim sample_answer \<noteq> []" by (simp add: sample_cleaned sample_ends)
  have f: "JSON_parse (cleanedResponse (trim sample_answer)) = Some (JArray (map question_json sample_questions))"
    by (simp add: sample_cleaned parse_sample)
  have g: "length (map question_json sample_questions) = 10" by (simp add: sample_length)
  show ?thesis by (rule sequential_requests_generate_once [OF a b c d e f g sample_no_null])
qed

theorem sequential_requests_keep_ten_witness:
  "ten_in_order sample_start
   \<and> map status (fst (handle_all memory three_requests sample_start)) = [200, 400, 200]
   \<and> ten_in_order (fst (snd (handle_all memory three_requests sample_start)))
   \<and> list_all (\<lambda>r. status r \<noteq> 200 \<or> orders_sent r = [1..<11])
        (fst (handle_all memory three_requests sample_start))"
proof -
  have a: "ten_in_order sample_start" unfolding sample_start_def by (rule ten_in_order_empty)
  have m: "generateQuizHandler memory Missing sample_done = (domain_required, sample_done, [])"
    by (simp add: generateQuizHandler_def run.simps)
  have h: "handle_all memory three_requests sample_start
      = ([reread 1 sample_done, domain_required, reread 1 sample_done], sample_done,
         first_calls @ later_calls)"
    by (simp add: three_requests_def sample_first sample_later m)
  from sequential_requests_keep_ten [OF a h] a show ?thesis
    by (simp add: h domain_required_def)
qed

theorem untagged_fence_not_removed_witness:
  "JSON_parse sample_answer = Some (JArray (map question_json sample_questions))
   \<and> cleanedResponse (trim (tagged_fence sample_answer)) = sample_answer
   \<and> JSON_parse (cleanedResponse (trim (untagged_fence sample_answer))) = None
   \<and> on_completion 1 [Some (untagged_fence sample_answer)] = Sent invalid_json"
  using untagged_fence_not_removed [OF sample_ends, of 1 "[]"] parse_sample by blast

subsection \<open>The detail of an error\<close>

text \<open>
  Claim C9. The handler reads no mode: when the lookup of the quiz fails it answers 500
  with the message of the error in the body. The error handler of the application
  leaves the message out when \<^verbatim>\<open>NODE_ENV\<close> is \<^verbatim>\<open>production\<close>.
\<close>

theorem error_detail_sent_whatever_mode:
  "generateQuizHandler outage (Single ''algorithms'') (empty_world [])
     = (\<lparr>status = 500,
         body = MessageBody ''Internal server error.''
                  (Some ''Error checking quiz: connection failure'')\<rparr>,
        empty_world [], [SelectQuiz ''algorithms''])
   \<and> globalErrorHandler (Some ''production'') ''Error checking quiz: connection failure''
     = \<lparr>status = 500, body = MessageBody ''Internal server error'' None\<rparr>"
  by (simp add: generateQuizHandler_def run.simps outage_simps connection_failure_def
      internal_error_def globalErrorHandler_def)

end
